theory Spec2Isabelle
  imports Main
begin

section \<open>Python strings\<close>

text \<open>
  A Python \<open>str\<close> is modelled as a \<open>string\<close>; one \<open>char\<close> stands for one code point
  below 256. The functions of this section are the library calls that
  \<open>extract_c20c_data\<close> makes on strings: \<open>str.rstrip()\<close>, \<open>str.find\<close>, the slice
  \<open>s[i:]\<close>, \<open>str(int)\<close> and \<open>os.path.dirname\<close> (the POSIX version).
\<close>

definition py_isspace :: "char \<Rightarrow> bool" where
  "py_isspace c = (of_char c \<in> {9, 10, 11, 12, 13, 28, 29, 30, 31, 32, 133, 160 :: nat})"

definition rstrip :: "string \<Rightarrow> string" where
  "rstrip s = rev (dropWhile py_isspace (rev s))"

fun find_from :: "string \<Rightarrow> string \<Rightarrow> nat \<Rightarrow> int" where
  "find_from sub [] i = (if sub = [] then int i else - 1)"
| "find_from sub (c # cs) i =
     (if take (length sub) (c # cs) = sub then int i else find_from sub cs (Suc i))"

definition py_find :: "string \<Rightarrow> string \<Rightarrow> int" where
  \<comment> \<open>\<open>s.find(sub)\<close>: the lowest index where \<open>sub\<close> occurs, or \<open>-1\<close>\<close>
  "py_find s sub = find_from sub s 0"

definition slice_from :: "string \<Rightarrow> int \<Rightarrow> string" where
  \<comment> \<open>\<open>s[i:]\<close>: a negative index counts from the end and is clipped at 0\<close>
  "slice_from s i =
     (if i < 0 then drop (nat (max 0 (int (length s) + i))) s else drop (nat i) s)"

fun rfind_from :: "char \<Rightarrow> string \<Rightarrow> nat \<Rightarrow> int \<Rightarrow> int" where
  "rfind_from c [] i found = found"
| "rfind_from c (x # xs) i found = rfind_from c xs (Suc i) (if x = c then int i else found)"

definition py_rfind_char :: "string \<Rightarrow> char \<Rightarrow> int" where
  \<comment> \<open>\<open>s.rfind(c)\<close> for a one-character \<open>c\<close>: the highest index of \<open>c\<close>, or \<open>-1\<close>\<close>
  "py_rfind_char s c = rfind_from c s 0 (- 1)"

definition rstrip_char :: "char \<Rightarrow> string \<Rightarrow> string" where
  \<comment> \<open>\<open>s.rstrip(c)\<close> for a one-character \<open>c\<close>\<close>
  "rstrip_char c s = rev (dropWhile (\<lambda>x. x = c) (rev s))"

definition dirname :: "string \<Rightarrow> string" where
  \<comment> \<open>\<open>posixpath.dirname\<close>:
      \<open>i = p.rfind('/') + 1; head = p[:i];
        if head and head != '/' * len(head): head = head.rstrip('/')\<close>\<close>
  "dirname p =
     (let i = py_rfind_char p (CHR ''/'') + 1;
          head = take (nat i) p
      in if head \<noteq> [] \<and> head \<noteq> replicate (length head) (CHR ''/'')
         then rstrip_char (CHR ''/'') head else head)"

definition digit_char :: "nat \<Rightarrow> char" where
  "digit_char d = ''0123456789'' ! d"

fun str_nat :: "nat \<Rightarrow> string" where
  "str_nat n = (if n < 10 then [digit_char n] else str_nat (n div 10) @ [digit_char (n mod 10)])"

declare str_nat.simps [simp del]

definition str_int :: "int \<Rightarrow> string" where
  \<comment> \<open>\<open>str(n)\<close> for an integer\<close>
  "str_int n = (if n < 0 then CHR ''-'' # str_nat (nat (- n)) else str_nat (nat n))"

section \<open>Exceptions\<close>

text \<open>
  Every exception that the function can raise is a value. \<open>RuntimeError\<close> carries its
  message, \<open>CalledProcessError\<close> the exit status and the command line, \<open>OSError\<close> the
  path or program it is about. \<open>Unsupported\<close> is not a Python exception: it marks a
  format string that uses a feature of \<open>str.format\<close> left out of \<open>py_format\<close> below.
\<close>

datatype py_error =
    ValueError string
  | KeyError string
  | IndexError
  | TypeError
  | RuntimeError string
  | CalledProcessError int "string list"
  | OSError string
  | Unsupported string

section \<open>The format string\<close>

text \<open>
  \<open>path_template.format(experiment = ..., ...)\<close> is called with keyword arguments only,
  all of them strings. \<open>py_format\<close> follows CPython's \<open>str.format\<close>: the format string is
  cut into literal text and replacement fields (\<open>markup\<close>, after \<open>MarkupIterator_next\<close>
  and \<open>parse_field\<close>), and the fields are rendered from left to right
  (\<open>render_field\<close>, after \<open>get_field_object\<close>). A syntax error of the format string is
  raised when the scan reaches it, after the fields before it have been rendered.

  Modelled: literal text, the escapes \<open>{{\<close> and \<open>}}\<close>, fields \<open>{name}\<close>, positional
  fields (an \<open>IndexError\<close>, since there are no positional arguments), the index
  \<open>{name[3]}\<close> into a string, the conversion \<open>!s\<close>. Left out, with the result
  \<open>Unsupported\<close>: attribute access \<open>{name.attr}\<close>, the conversions \<open>!r\<close> and \<open>!a\<close>, and
  a non-empty format specification \<open>{name:spec}\<close>.
\<close>

datatype item = Literal string | Field string "char option" string

datatype mode = InText | InName | InIndex | Bang | PostConv | InSpec nat

fun lit_item :: "string \<Rightarrow> item list" where
  "lit_item [] = []"
| "lit_item s = [Literal s]"

fun markup ::
  "mode \<Rightarrow> string \<Rightarrow> string \<Rightarrow> char option \<Rightarrow> string \<Rightarrow> string \<Rightarrow> item list \<times> py_error option"
where
  "markup InText lit nm cv sp [] = (lit_item lit, None)"
| "markup InText lit nm cv sp [c] =
     (if c = CHR ''{'' then (lit_item lit, Some (ValueError ''Single { encountered in format string''))
      else if c = CHR ''}'' then (lit_item lit, Some (ValueError ''Single } encountered in format string''))
      else (lit_item (lit @ [c]), None))"
| "markup InText lit nm cv sp (c # d # cs) =
     (if c = CHR ''{'' then
        (if d = CHR ''{'' then markup InText (lit @ [c]) nm cv sp cs
         else (let (items, err) = markup InName [] [] None [] (d # cs)
               in (lit_item lit @ items, err)))
      else if c = CHR ''}'' then
        (if d = CHR ''}'' then markup InText (lit @ [c]) nm cv sp cs
         else (lit_item lit, Some (ValueError ''Single } encountered in format string'')))
      else markup InText (lit @ [c]) nm cv sp (d # cs))"
| "markup InName lit nm cv sp [] = ([], Some (ValueError ''expected } before end of string''))"
| "markup InName lit nm cv sp (c # cs) =
     (if c = CHR ''{'' then ([], Some (ValueError ''unexpected { in field name''))
      else if c = CHR ''['' then markup InIndex lit (nm @ [c]) cv sp cs
      else if c = CHR ''}'' then
        (let (items, err) = markup InText [] [] None [] cs in (Field nm None [] # items, err))
      else if c = CHR '':'' then markup (InSpec 0) lit nm None [] cs
      else if c = CHR ''!'' then markup Bang lit nm None [] cs
      else markup InName lit (nm @ [c]) cv sp cs)"
| "markup InIndex lit nm cv sp [] = ([], Some (ValueError ''expected } before end of string''))"
| "markup InIndex lit nm cv sp (c # cs) =
     (if c = CHR '']'' then markup InName lit (nm @ [c]) cv sp cs
      else markup InIndex lit (nm @ [c]) cv sp cs)"
| "markup Bang lit nm cv sp [] =
     ([], Some (ValueError ''end of string while looking for conversion specifier''))"
| "markup Bang lit nm cv sp (c # cs) = markup PostConv lit nm (Some c) sp cs"
| "markup PostConv lit nm cv sp [] = ([], Some (ValueError ''unmatched { in format spec''))"
| "markup PostConv lit nm cv sp (c # cs) =
     (if c = CHR ''}'' then
        (let (items, err) = markup InText [] [] None [] cs in (Field nm cv [] # items, err))
      else if c \<noteq> CHR '':'' then
        ([], Some (ValueError ''expected : after conversion specifier''))
      else markup (InSpec 0) lit nm cv [] cs)"
| "markup (InSpec depth) lit nm cv sp [] = ([], Some (ValueError ''unmatched { in format spec''))"
| "markup (InSpec depth) lit nm cv sp (c # cs) =
     (if c = CHR ''{'' then markup (InSpec (Suc depth)) lit nm cv (sp @ [c]) cs
      else if c = CHR ''}'' then
        (case depth of
           0 \<Rightarrow> (let (items, err) = markup InText [] [] None [] cs in (Field nm cv sp # items, err))
         | Suc k \<Rightarrow> markup (InSpec k) lit nm cv (sp @ [c]) cs)
      else markup (InSpec depth) lit nm cv (sp @ [c]) cs)"

definition is_digit :: "char \<Rightarrow> bool" where
  "is_digit c = (48 \<le> (of_char c :: nat) \<and> (of_char c :: nat) \<le> 57)"

fun get_integer :: "string \<Rightarrow> nat \<Rightarrow> nat" where
  "get_integer [] acc = acc"
| "get_integer (c # cs) acc = get_integer cs (acc * 10 + (of_char c - 48))"

definition is_integer :: "string \<Rightarrow> bool" where
  \<comment> \<open>\<open>get_integer\<close> of CPython answers \<open>-1\<close> for an empty string or one with a non-digit\<close>
  "is_integer s = (s \<noteq> [] \<and> list_all is_digit s)"

text \<open>
  The accessors after the first part of a field name, applied to a string value
  (\<open>FieldNameIterator_next\<close>): \<open>[n]\<close> indexes the string, \<open>[key]\<close> with a key that is
  not a number is a \<open>TypeError\<close> on a string.
\<close>

function accessors :: "string \<Rightarrow> string \<Rightarrow> py_error + string" where
  "accessors v [] = Inr v"
| "accessors v (c # cs) =
     (if c = CHR ''.'' then Inl (Unsupported ''attribute access in a replacement field'')
      else if c = CHR ''['' then
        (let idx = takeWhile (\<lambda>x. x \<noteq> CHR '']'') cs;
             rest = dropWhile (\<lambda>x. x \<noteq> CHR '']'') cs
         in if rest = [] then Inl (ValueError ''Missing ] in format string'')
            else if idx = [] then Inl (ValueError ''Empty attribute in format string'')
            else if \<not> is_integer idx then Inl TypeError
            else if get_integer idx 0 < length v
              then accessors [v ! get_integer idx 0] (tl rest)
            else Inl IndexError)
      else Inl (ValueError ''Only . or [ may follow ] in format field specifier''))"
  by pat_completeness auto

termination
proof (relation "measure (\<lambda>(v, s). length s)")
  show "wf (measure (\<lambda>(v, s). length s))"
    by simp
next
  fix v :: string and c :: char and cs idx rest :: string
  assume "rest = dropWhile (\<lambda>x. x \<noteq> CHR '']'') cs"
  moreover have "length (dropWhile (\<lambda>x. x \<noteq> CHR '']'') cs) \<le> length cs"
    by (rule length_dropWhile_le)
  ultimately show "(([v ! get_integer idx 0], tl rest), (v, c # cs)) \<in> measure (\<lambda>(v, s). length s)"
    by simp
qed

definition render_field ::
  "(string \<times> string) list \<Rightarrow> string \<Rightarrow> char option \<Rightarrow> string \<Rightarrow> py_error + string"
where
  "render_field kwargs nm cv sp =
     (let first = takeWhile (\<lambda>x. x \<noteq> CHR ''.'' \<and> x \<noteq> CHR ''['') nm;
          rest = dropWhile (\<lambda>x. x \<noteq> CHR ''.'' \<and> x \<noteq> CHR ''['') nm
      in if first = [] \<or> is_integer first then Inl IndexError
         else case map_of kwargs first of
            None \<Rightarrow> Inl (KeyError first)
          | Some v \<Rightarrow>
             (case accessors v rest of
                Inl e \<Rightarrow> Inl e
              | Inr obj \<Rightarrow>
                 if cv \<noteq> None \<and> cv \<noteq> Some (CHR ''s'') then
                   (if cv = Some (CHR ''r'') \<or> cv = Some (CHR ''a'')
                    then Inl (Unsupported ''conversion of a replacement field'')
                    else Inl (ValueError ''Unknown conversion specifier''))
                 else if sp \<noteq> [] then Inl (Unsupported ''format specification'')
                 else Inr obj))"

fun render_items ::
  "(string \<times> string) list \<Rightarrow> item list \<Rightarrow> py_error option \<Rightarrow> py_error + string"
where
  "render_items kwargs [] err = (case err of None \<Rightarrow> Inr [] | Some e \<Rightarrow> Inl e)"
| "render_items kwargs (Literal s # items) err =
     (case render_items kwargs items err of Inl e \<Rightarrow> Inl e | Inr out \<Rightarrow> Inr (s @ out))"
| "render_items kwargs (Field nm cv sp # items) err =
     (case render_field kwargs nm cv sp of
        Inl e \<Rightarrow> Inl e
      | Inr v \<Rightarrow>
         (case render_items kwargs items err of Inl e \<Rightarrow> Inl e | Inr out \<Rightarrow> Inr (v @ out)))"

definition py_format :: "string \<Rightarrow> (string \<times> string) list \<Rightarrow> py_error + string" where
  "py_format template kwargs =
     (let (items, err) = markup InText [] [] None [] template in render_items kwargs items err)"

section \<open>The request and the process state\<close>

text \<open>
  The parameters of \<open>extract_c20c_data\<close>, one field each; \<open>variable_list\<close> and
  \<open>output_directory\<close> are \<open>None\<close> by default.
\<close>

record request =
  "experiment" :: string
  run :: string
  variable_list :: "string list option"
  institution :: string
  model :: string
  estimate :: string
  version :: string
  path_template :: string
  verbose :: bool
  output_directory :: "string option"
  verify_first :: bool
  clobber :: bool
  htar_threads :: int

definition default_path_template :: string where
  "default_path_template =
     ''/nersc/s/stoned/C20C/{institution}/{model}/{experiment}/{estimate}/{version}/3hr/atmos/{variable}/{run}/{variable}_A3hr_{model}_{experiment}_{estimate}_{version}_{run}.tar''"

definition default_request :: request where
  "default_request =
     \<lparr> experiment = ''All-Hist'', run = ''run001'', variable_list = None,
       institution = ''LBNL'', model = ''CAM5-1-1degree'', estimate = ''est1'',
       version = ''v2-0'', path_template = default_path_template, verbose = True,
       output_directory = None, verify_first = True, clobber = True, htar_threads = 15 \<rparr>"

text \<open>
  What the function can observe and change outside itself. The working directory of
  the process is a field of the state; everything else (the file system, the tape
  archive) is an abstract value \<open>'x\<close> that only the platform reads and changes. The
  state also records, in order, every external command that was started, with its
  outcome, and every line that was printed.
\<close>

datatype proc_result = Exited int | NotStarted

datatype invocation = Invocation (argv: "string list") (result: proc_result)

record 'x world =
  cwd :: string
  ext :: 'x
  procs :: "invocation list"
  stdout :: "string list"

text \<open>
  The platform: the library and system calls whose outcome the function does not
  decide. \<open>str_format\<close> is \<open>str.format\<close> with keyword arguments (\<open>py_format\<close> above is
  its model); \<open>spawn\<close> starts a command in a working directory and waits for it: it
  answers an exit status, or \<open>NotStarted\<close> when the program could not be run, and the
  new outside state. \<open>isdir\<close>, \<open>listdir\<close>, \<open>makedirs\<close> (with \<open>exist_ok = True\<close>) and
  \<open>chdir\<close> take the path, the working directory and the outside state; \<open>makedirs\<close>
  and \<open>chdir\<close> answer the error, if there is one, and \<open>makedirs\<close> the new outside
  state as well. \<open>os.getcwd()\<close> reads the working directory of the state.
\<close>

record 'x platform =
  str_format :: "string \<Rightarrow> (string \<times> string) list \<Rightarrow> py_error + string"
  spawn :: "string list \<Rightarrow> string \<Rightarrow> 'x \<Rightarrow> proc_result \<times> 'x"
  isdir :: "string \<Rightarrow> string \<Rightarrow> 'x \<Rightarrow> bool"
  listdir :: "string \<Rightarrow> string \<Rightarrow> 'x \<Rightarrow> py_error + string list"
  makedirs :: "string \<Rightarrow> string \<Rightarrow> 'x \<Rightarrow> py_error option \<times> 'x"
  chdir :: "string \<Rightarrow> string \<Rightarrow> 'x \<Rightarrow> py_error option"

definition vprint :: "request \<Rightarrow> string \<Rightarrow> 'x world \<Rightarrow> 'x world" where
  "vprint rq msg w = (if verbose rq then w\<lparr>stdout := stdout w @ [msg]\<rparr> else w)"

definition subprocess_run ::
  "'x platform \<Rightarrow> string list \<Rightarrow> 'x world \<Rightarrow> (py_error + unit) \<times> 'x world"
where
  \<comment> \<open>\<open>subprocess.run(args, check = True)\<close>\<close>
  "subprocess_run pf args w =
     (let (r, x) = spawn pf args (cwd w) (ext w);
          w' = w\<lparr>ext := x, procs := procs w @ [Invocation args r]\<rparr>
      in case r of
           Exited code \<Rightarrow>
             if code \<noteq> 0 then (Inl (CalledProcessError code args), w') else (Inr (), w')
         | NotStarted \<Rightarrow> (Inl (OSError (hd args)), w'))"

definition resolve :: "string \<Rightarrow> string \<Rightarrow> string" where
  \<comment> \<open>the directory that \<open>path\<close> names when the working directory is \<open>dir\<close>\<close>
  "resolve dir path =
     (if path \<noteq> [] \<and> hd path = CHR ''/'' then path
      else if dir = [] \<or> last dir = CHR ''/'' then dir @ path
      else dir @ ''/'' @ path)"

definition os_chdir ::
  "'x platform \<Rightarrow> string \<Rightarrow> 'x world \<Rightarrow> (py_error + unit) \<times> 'x world"
where
  "os_chdir pf path w =
     (case chdir pf path (cwd w) (ext w) of
        Some e \<Rightarrow> (Inl e, w)
      | None \<Rightarrow> (Inr (), w\<lparr>cwd := resolve (cwd w) path\<rparr>))"

section \<open>The function \<open>extract_c20c_data\<close>\<close>

definition variables :: "request \<Rightarrow> string list" where
  \<comment> \<open>\<open>if variable_list is None: variable_list = ["hus", "ua", "va"]\<close>\<close>
  "variables rq = (case variable_list rq of None \<Rightarrow> [''hus'', ''ua'', ''va''] | Some vs \<Rightarrow> vs)"

definition format_kwargs :: "request \<Rightarrow> string \<Rightarrow> (string \<times> string) list" where
  "format_kwargs rq variable =
     [(''experiment'', experiment rq), (''run'', run rq), (''variable'', variable),
      (''institution'', institution rq), (''model'', model rq),
      (''estimate'', estimate rq), (''version'', version rq)]"

definition render :: "'x platform \<Rightarrow> request \<Rightarrow> string \<Rightarrow> py_error + string" where
  "render pf rq variable = str_format pf (path_template rq) (format_kwargs rq variable)"

definition hsi_args :: "string \<Rightarrow> string list" where
  "hsi_args htar_path = [''hsi'', rstrip (''ls '' @ htar_path)]"

definition verify_message :: "string \<Rightarrow> string" where
  "verify_message htar_path = ''Failed to verify that `'' @ htar_path @ ''` exists.''"

text \<open>The first loop (lines 90 to 109): render one path per variable and check it.\<close>

fun verify_loop ::
  "'x platform \<Rightarrow> request \<Rightarrow> string list \<Rightarrow> (string \<rightharpoonup> string) \<Rightarrow> 'x world \<Rightarrow>
     (py_error + (string \<rightharpoonup> string)) \<times> 'x world"
where
  "verify_loop pf rq [] htar_paths w = (Inr htar_paths, w)"
| "verify_loop pf rq (variable # rest) htar_paths w =
     (case render pf rq variable of
        Inl e \<Rightarrow> (Inl e, w)
      | Inr htar_path \<Rightarrow>
          if verify_first rq then
            (case subprocess_run pf (hsi_args htar_path) w of
               (Inl e, w') \<Rightarrow> (Inl (RuntimeError (verify_message htar_path)), w')
             | (Inr u, w') \<Rightarrow> verify_loop pf rq rest (htar_paths(variable \<mapsto> htar_path)) w')
          else verify_loop pf rq rest (htar_paths(variable \<mapsto> htar_path)) w)"

definition out_dir_of :: "request \<Rightarrow> string \<Rightarrow> string" where
  "out_dir_of rq htar_path =
     (case output_directory rq of
        None \<Rightarrow>
          (let i_path_start = py_find htar_path (institution rq);
               path_substr = slice_from htar_path i_path_start
           in dirname path_substr)
      | Some d \<Rightarrow> d)"

definition files_exist ::
  "'x platform \<Rightarrow> request \<Rightarrow> string \<Rightarrow> 'x world \<Rightarrow> py_error + bool"
where
  \<comment> \<open>lines 126 to 130: whether the function returns at line 132\<close>
  "files_exist pf rq out_dir w =
     (if \<not> clobber rq then
        (if isdir pf out_dir (cwd w) (ext w) then
           (case listdir pf out_dir (cwd w) (ext w) of
              Inl e \<Rightarrow> Inl e
            | Inr names \<Rightarrow> Inr (length names \<noteq> 0))
         else Inr False)
      else Inr False)"

definition skip_message :: "string \<Rightarrow> string" where
  "skip_message out_dir = ''Files exist in `'' @ out_dir @ ''` and clobber = False; skipping.''"

definition extract_message :: "string \<Rightarrow> string \<Rightarrow> string" where
  "extract_message variable htar_path =
     ''Extracting `'' @ variable @ ''` from `'' @ htar_path @ ''`; this may take some time...''"

definition htar_args :: "request \<Rightarrow> string \<Rightarrow> string list" where
  "htar_args rq htar_path = [''htar'', ''-T'', str_int (htar_threads rq), ''-xf'', htar_path]"

definition extract_one ::
  "'x platform \<Rightarrow> request \<Rightarrow> string \<Rightarrow> string \<Rightarrow> string \<Rightarrow> 'x world \<Rightarrow>
     (py_error + unit) \<times> 'x world"
where
  \<comment> \<open>lines 135 to 151\<close>
  "extract_one pf rq variable htar_path out_dir w =
     (case makedirs pf out_dir (cwd w) (ext w) of
        (Some e, x) \<Rightarrow> (Inl e, w\<lparr>ext := x\<rparr>)
      | (None, x) \<Rightarrow>
          (let w1 = w\<lparr>ext := x\<rparr>;
               saved = cwd w1
           in case os_chdir pf out_dir w1 of
                (Inl e, w2) \<Rightarrow> (Inl e, w2)
              | (Inr u, w2) \<Rightarrow>
                  (case subprocess_run pf (htar_args rq htar_path)
                          (vprint rq (extract_message variable htar_path) w2) of
                     (Inl e, w3) \<Rightarrow> (Inl e, w3)
                   | (Inr u, w3) \<Rightarrow> os_chdir pf saved w3)))"

text \<open>
  Python returns \<open>None\<close> both at line 132 and at the end of the body; the model's
  value says which of the two was reached.
\<close>

datatype finish = Completed | Skipped

text \<open>The second loop (lines 112 to 151).\<close>

fun extract_loop ::
  "'x platform \<Rightarrow> request \<Rightarrow> string list \<Rightarrow> (string \<rightharpoonup> string) \<Rightarrow> 'x world \<Rightarrow>
     (py_error + finish) \<times> 'x world"
where
  "extract_loop pf rq [] htar_paths w = (Inr Completed, w)"
| "extract_loop pf rq (variable # rest) htar_paths w =
     (case htar_paths variable of
        None \<Rightarrow> (Inl (KeyError variable), w)
      | Some htar_path \<Rightarrow>
          (let out_dir = out_dir_of rq htar_path
           in case files_exist pf rq out_dir w of
                Inl e \<Rightarrow> (Inl e, w)
              | Inr True \<Rightarrow> (Inr Skipped, vprint rq (skip_message out_dir) w)
              | Inr False \<Rightarrow>
                  (case extract_one pf rq variable htar_path out_dir w of
                     (Inl e, w') \<Rightarrow> (Inl e, w')
                   | (Inr u, w') \<Rightarrow> extract_loop pf rq rest htar_paths w')))"

definition announce :: "request \<Rightarrow> 'x world \<Rightarrow> 'x world" where
  \<comment> \<open>lines 87 and 88\<close>
  "announce rq w =
     (if verify_first rq
      then vprint rq ''Checking that expected tar files exist on tape...'' w else w)"

definition extract_c20c_data ::
  "'x platform \<Rightarrow> request \<Rightarrow> 'x world \<Rightarrow> (py_error + finish) \<times> 'x world"
where
  "extract_c20c_data pf rq w =
     (case verify_loop pf rq (variables rq) Map.empty (announce rq w) of
        (Inl e, w1) \<Rightarrow> (Inl e, w1)
      | (Inr htar_paths, w1) \<Rightarrow> extract_loop pf rq (variables rq) htar_paths w1)"

definition new_procs :: "'x world \<Rightarrow> 'x world \<Rightarrow> invocation list" where
  \<comment> \<open>the commands started between the state \<open>w\<close> and the later state \<open>w'\<close>\<close>
  "new_procs w w' = drop (length (procs w)) (procs w')"

definition is_abs :: "string \<Rightarrow> bool" where
  "is_abs path = (path \<noteq> [] \<and> hd path = CHR ''/'')"

section \<open>Notions used in the statements\<close>

text \<open>
  The exception that \<open>subprocess.run(args, check = True)\<close> raises for an outcome other
  than exit status 0.
\<close>

definition proc_error :: "string list \<Rightarrow> proc_result \<Rightarrow> py_error" where
  "proc_error args res =
     (case res of Exited code \<Rightarrow> CalledProcessError code args | NotStarted \<Rightarrow> OSError (hd args))"

text \<open>
  \<open>renders\<close> says that the path of a variable can be rendered, \<open>path_of\<close> is that
  path. \<open>checks\<close> and \<open>extractions\<close> are the successful \<open>hsi\<close> and \<open>htar\<close> commands of
  a list of variables, in the order of the list; \<open>program\<close> is the name of the
  program of a command.
\<close>

definition path_of :: "'x platform \<Rightarrow> request \<Rightarrow> string \<Rightarrow> string" where
  "path_of pf rq variable = (case render pf rq variable of Inr p \<Rightarrow> p | Inl e \<Rightarrow> [])"

definition renders :: "'x platform \<Rightarrow> request \<Rightarrow> string \<Rightarrow> bool" where
  "renders pf rq variable = (case render pf rq variable of Inr p \<Rightarrow> True | Inl e \<Rightarrow> False)"

definition checks :: "'x platform \<Rightarrow> request \<Rightarrow> string list \<Rightarrow> invocation list" where
  "checks pf rq vs =
     (if verify_first rq
      then map (\<lambda>v. Invocation (hsi_args (path_of pf rq v)) (Exited 0)) vs else [])"

definition extractions :: "'x platform \<Rightarrow> request \<Rightarrow> string list \<Rightarrow> invocation list" where
  "extractions pf rq vs = map (\<lambda>v. Invocation (htar_args rq (path_of pf rq v)) (Exited 0)) vs"

definition program :: "invocation \<Rightarrow> string" where
  "program call = (case argv call of [] \<Rightarrow> [] | a # args \<Rightarrow> a)"

text \<open>
  How the two loops can end. \<open>verify_end\<close>: the first loop stops at a variable
  either because its path cannot be rendered, or because its check failed.
  \<open>loop_end\<close>: the second loop ends after the last variable, or at line 132, or with
  an exception at the first of the remaining variables; \<open>tail\<close> is the last command
  started, if it is not one of the successful extractions counted before.
\<close>

definition verify_end ::
  "'x platform \<Rightarrow> request \<Rightarrow> py_error \<Rightarrow> string \<Rightarrow> invocation list \<Rightarrow> bool"
where
  "verify_end pf rq e v tail =
     ((render pf rq v = Inl e \<and> tail = [])
      \<or> (\<exists>res. renders pf rq v \<and> verify_first rq \<and> res \<noteq> Exited 0
            \<and> tail = [Invocation (hsi_args (path_of pf rq v)) res]
            \<and> e = RuntimeError (verify_message (path_of pf rq v))))"

definition loop_end ::
  "request \<Rightarrow> (string \<Rightarrow> string) \<Rightarrow> py_error + finish \<Rightarrow> string list \<Rightarrow> invocation list \<Rightarrow>
     string \<Rightarrow> string \<Rightarrow> bool"
where
  "loop_end rq P r rest tail c c' =
     (case r of
        Inr fin \<Rightarrow> tail = [] \<and> (is_abs c \<longrightarrow> c' = c)
          \<and> (case fin of Completed \<Rightarrow> rest = [] | Skipped \<Rightarrow> rest \<noteq> [] \<and> \<not> clobber rq)
      | Inl e \<Rightarrow> rest \<noteq> []
          \<and> (tail = [] \<or> tail = [Invocation (htar_args rq (P (hd rest))) (Exited 0)]
             \<or> (\<exists>res. res \<noteq> Exited 0 \<and> tail = [Invocation (htar_args rq (P (hd rest))) res]
                   \<and> e = proc_error (htar_args rq (P (hd rest))) res
                   \<and> (is_abs c \<longrightarrow> c' = resolve c (out_dir_of rq (P (hd rest)))))))"

text \<open>
  A path template described by its parts: literal text and placeholders \<open>{name}\<close>.
  \<open>template_of\<close> is the format string of such a description, \<open>fill\<close> the text with
  every placeholder replaced by the value of its field. \<open>field_names\<close> are the seven
  keyword arguments of the call of \<open>format\<close>; \<open>plain_name\<close> says that a field name is
  a keyword and nothing more (no index, attribute, conversion or format
  specification).
\<close>

datatype segment = Text string | Hole string

fun template_of :: "segment list \<Rightarrow> string" where
  "template_of [] = []"
| "template_of (Text s # segs) = s @ template_of segs"
| "template_of (Hole n # segs) = CHR ''{'' # n @ CHR ''}'' # template_of segs"

fun fill :: "(string \<times> string) list \<Rightarrow> segment list \<Rightarrow> string" where
  "fill kwargs [] = []"
| "fill kwargs (Text s # segs) = s @ fill kwargs segs"
| "fill kwargs (Hole n # segs) =
     (case map_of kwargs n of Some v \<Rightarrow> v | None \<Rightarrow> []) @ fill kwargs segs"

definition field_names :: "string list" where
  "field_names =
     [''experiment'', ''run'', ''variable'', ''institution'', ''model'', ''estimate'', ''version'']"

definition plain_name :: "string \<Rightarrow> bool" where
  "plain_name n = (n \<noteq> [] \<and> \<not> is_integer n \<and> set n \<inter> set ''{}[].!:'' = {})"

text \<open>
  Which field of the request stands for which placeholder name, and the path that a
  description stands for: its text with every placeholder replaced by that value.
\<close>

definition field_value :: "request \<Rightarrow> string \<Rightarrow> string \<Rightarrow> string" where
  "field_value rq variable name =
     (if name = ''experiment'' then experiment rq
      else if name = ''run'' then run rq
      else if name = ''variable'' then variable
      else if name = ''institution'' then institution rq
      else if name = ''model'' then model rq
      else if name = ''estimate'' then estimate rq
      else if name = ''version'' then version rq
      else [])"

fun substitute :: "(string \<Rightarrow> string) \<Rightarrow> segment list \<Rightarrow> string" where
  "substitute val [] = []"
| "substitute val (Text s # segs) = s @ substitute val segs"
| "substitute val (Hole n # segs) = val n @ substitute val segs"

definition default_segments :: "segment list" where
  "default_segments =
     [Text ''/nersc/s/stoned/C20C/'', Hole ''institution'', Text ''/'', Hole ''model'',
      Text ''/'', Hole ''experiment'', Text ''/'', Hole ''estimate'', Text ''/'',
      Hole ''version'', Text ''/3hr/atmos/'', Hole ''variable'', Text ''/'', Hole ''run'',
      Text ''/'', Hole ''variable'', Text ''_A3hr_'', Hole ''model'', Text ''_'',
      Hole ''experiment'', Text ''_'', Hole ''estimate'', Text ''_'', Hole ''version'',
      Text ''_'', Hole ''run'', Text ''.tar'']"




section \<open>Example runs\<close>

text \<open>
  A platform for the examples: \<open>str.format\<close> is \<open>py_format\<close>, a command fails with
  exit status 1 when its command line is in \<open>failing\<close> and succeeds otherwise, and
  the directories in \<open>full\<close> exist and hold one file. The outside state is not used.
\<close>

definition demo_platform :: "string list list \<Rightarrow> string list \<Rightarrow> unit platform" where
  "demo_platform failing full =
     \<lparr> str_format = py_format,
       spawn = (\<lambda>args dir x. (if args \<in> set failing then Exited 1 else Exited 0, x)),
       isdir = (\<lambda>path dir x. path \<in> set full),
       listdir = (\<lambda>path dir x. Inr (if path \<in> set full then [''old.nc''] else [])),
       makedirs = (\<lambda>path dir x. (None, x)),
       chdir = (\<lambda>path dir x. None) \<rparr>"

definition demo_world :: "unit world" where
  "demo_world = \<lparr> cwd = ''/home/user'', ext = (), procs = [], stdout = [] \<rparr>"

definition short_request :: request where
  "short_request =
     \<lparr> experiment = ''E'', run = ''r1'', variable_list = Some [''hus'', ''ua'', ''va''],
       institution = ''LBNL'', model = ''M'', estimate = ''e1'', version = ''v2'',
       path_template = ''/t/{institution}/{model}/{variable}/{variable}_{run}.tar'',
       verbose = False, output_directory = None, verify_first = True, clobber = True,
       htar_threads = 15 \<rparr>"

definition index_request :: request where
  "index_request =
     \<lparr> experiment = ''E'', run = ''r1'', variable_list = Some [''hus'', ''''],
       institution = ''LBNL'', model = ''M'', estimate = ''e1'', version = ''v2'',
       path_template = ''/t/{variable[0]}.tar'',
       verbose = False, output_directory = None, verify_first = True, clobber = True,
       htar_threads = 15 \<rparr>"

definition keep_request :: request where
  "keep_request = short_request\<lparr> verify_first := False, clobber := False \<rparr>"

definition default_short_request :: request where
  "default_short_request = short_request\<lparr> path_template := default_path_template \<rparr>"

definition slash_request :: request where
  "slash_request = short_request\<lparr> path_template := ''/data/{variable}/'' \<rparr>"

section \<open>Strings: lemmas\<close>

lemma rfind_from_eq:
  "found < int i \<Longrightarrow>
   rfind_from c xs i found =
     (if c \<in> set xs
      then int i + int (length xs) - 1 - int (length (takeWhile (\<lambda>x. x \<noteq> c) (rev xs)))
      else found)"
  by (induction xs arbitrary: i found) (auto simp: takeWhile_append)

lemma take_rfind:
  "take (nat (py_rfind_char p c + 1)) p = rev (dropWhile (\<lambda>x. x \<noteq> c) (rev p))"
proof (cases "c \<in> set p")
  case False
  then have "dropWhile (\<lambda>x. x \<noteq> c) (rev p) = []"
    by auto
  with False show ?thesis
    by (simp add: py_rfind_char_def rfind_from_eq)
next
  case True
  let ?t = "takeWhile (\<lambda>x. x \<noteq> c) (rev p)"
  let ?d = "dropWhile (\<lambda>x. x \<noteq> c) (rev p)"
  have len: "length ?t + length ?d = length p"
    by (metis length_append length_rev takeWhile_dropWhile_id)
  have "rev p = ?t @ ?d" by simp
  then have "p = rev ?d @ rev ?t"
    by (metis rev_append rev_rev_ident)
  then have "take (length ?d) p = rev ?d"
    by (metis append_eq_conv_conj length_rev)
  moreover have "nat (py_rfind_char p c + 1) = length ?d"
    using True len by (simp add: py_rfind_char_def rfind_from_eq)
  ultimately show ?thesis by simp
qed

lemma dirname_alt:
  "dirname p =
     (let head = rev (dropWhile (\<lambda>x. x \<noteq> CHR ''/'') (rev p))
      in if head \<noteq> [] \<and> head \<noteq> replicate (length head) (CHR ''/'')
         then rstrip_char (CHR ''/'') head else head)"
  by (simp only: dirname_def Let_def take_rfind)

lemma dirname_head:
  assumes "CHR ''/'' \<notin> set f" and "h = [] \<or> last h = CHR ''/''"
  shows "rev (dropWhile (\<lambda>x. x \<noteq> CHR ''/'') (rev (h @ f))) = h"
proof -
  have "dropWhile (\<lambda>x. x \<noteq> CHR ''/'') (rev f @ rev h) = dropWhile (\<lambda>x. x \<noteq> CHR ''/'') (rev h)"
    using assms(1) by (simp add: dropWhile_append)
  also have "\<dots> = rev h"
    using assms(2) by (cases h rule: rev_cases) auto
  finally show ?thesis by simp
qed

lemma dirname_strip:
  assumes "CHR ''/'' \<notin> set f" and "d \<noteq> []" and "last d \<noteq> CHR ''/''"
  shows "dirname (d @ replicate (Suc k) (CHR ''/'') @ f) = d"
proof -
  let ?h = "d @ replicate (Suc k) (CHR ''/'')"
  have head: "rev (dropWhile (\<lambda>x. x \<noteq> CHR ''/'') (rev (?h @ f))) = ?h"
    by (rule dirname_head [OF assms(1)]) simp
  have ne: "?h \<noteq> replicate (length ?h) (CHR ''/'')"
  proof
    assume "?h = replicate (length ?h) (CHR ''/'')"
    then have "set ?h \<subseteq> {CHR ''/''}"
      by (metis set_replicate_conv_if empty_subsetI subset_refl)
    moreover have "last d \<in> set ?h" using assms(2) by simp
    ultimately show False using assms(3) by auto
  qed
  have "dropWhile (\<lambda>x. x = CHR ''/'') (replicate (Suc k) (CHR ''/'') @ rev d) = rev d"
    using assms(2,3) by (cases d rule: rev_cases) (auto simp: dropWhile_append)
  then have strip: "rstrip_char (CHR ''/'') ?h = d"
    by (simp add: rstrip_char_def del: replicate_Suc)
  show ?thesis
    unfolding dirname_alt Let_def using head ne strip by (simp del: replicate_Suc)
qed

lemma dirname_slashes:
  assumes "CHR ''/'' \<notin> set f" and "set h \<subseteq> {CHR ''/''}"
  shows "dirname (h @ f) = h"
proof -
  have rep: "h = replicate (length h) (CHR ''/'')"
    using assms(2) by (induction h) auto
  have "h = [] \<or> last h = CHR ''/''"
    using assms(2) by (cases h rule: rev_cases) auto
  then have "rev (dropWhile (\<lambda>x. x \<noteq> CHR ''/'') (rev (h @ f))) = h"
    by (rule dirname_head [OF assms(1)])
  then show ?thesis
    unfolding dirname_alt Let_def using rep by simp
qed

lemma find_from_first:
  "\<forall>j<length pre. take (length sub) (drop j (pre @ sub @ rest)) \<noteq> sub \<Longrightarrow>
   find_from sub (pre @ sub @ rest) i = int (i + length pre)"
proof (induction pre arbitrary: i)
  case Nil
  have "take (length sub) (sub @ rest) = sub" by simp
  then show ?case by (cases "sub @ rest") auto
next
  case (Cons a pre)
  from Cons.prems have "take (length sub) (drop 0 ((a # pre) @ sub @ rest)) \<noteq> sub"
    by blast
  then have here: "take (length sub) (a # pre @ sub @ rest) \<noteq> sub" by simp
  have "\<forall>j<length pre. take (length sub) (drop j (pre @ sub @ rest)) \<noteq> sub"
  proof (intro allI impI)
    fix j assume "j < length pre"
    then have "Suc j < length (a # pre)" by simp
    with Cons.prems have "take (length sub) (drop (Suc j) ((a # pre) @ sub @ rest)) \<noteq> sub"
      by blast
    then show "take (length sub) (drop j (pre @ sub @ rest)) \<noteq> sub" by simp
  qed
  then have "find_from sub (pre @ sub @ rest) (Suc i) = int (Suc i + length pre)"
    by (rule Cons.IH)
  with here show ?case by simp
qed

lemma find_from_absent:
  "\<forall>pre rest. s \<noteq> pre @ sub @ rest \<Longrightarrow> find_from sub s i = - 1"
proof (induction s arbitrary: i)
  case Nil
  then have "sub \<noteq> []" by auto
  then show ?case by simp
next
  case (Cons c cs)
  have here: "take (length sub) (c # cs) \<noteq> sub"
  proof
    assume "take (length sub) (c # cs) = sub"
    then have "c # cs = [] @ sub @ drop (length sub) (c # cs)"
      by (metis append_Nil append_take_drop_id)
    with Cons.prems show False by blast
  qed
  have "\<forall>pre rest. cs \<noteq> pre @ sub @ rest"
  proof (intro allI notI)
    fix pre rest assume "cs = pre @ sub @ rest"
    then have "c # cs = (c # pre) @ sub @ rest" by simp
    with Cons.prems show False by blast
  qed
  then have "find_from sub cs (Suc i) = - 1" by (rule Cons.IH)
  with here show ?case by simp
qed

lemma find_from_present:
  "s = pre @ sub @ rest \<Longrightarrow> int i \<le> find_from sub s i"
proof (induction pre arbitrary: s i)
  case Nil
  have "take (length sub) (sub @ rest) = sub" by simp
  with Nil show ?case by (cases "sub @ rest") auto
next
  case (Cons a pre)
  have "int (Suc i) \<le> find_from sub (pre @ sub @ rest) (Suc i)"
    by (rule Cons.IH) simp
  with Cons.prems show ?case by simp
qed

lemma py_find_absent:
  assumes "py_find s sub = - 1"
  shows "\<forall>pre rest. s \<noteq> pre @ sub @ rest"
proof (intro allI notI)
  fix pre rest assume "s = pre @ sub @ rest"
  then have "int 0 \<le> find_from sub s 0" by (rule find_from_present)
  with assms show False by (simp add: py_find_def)
qed

section \<open>The format string: lemmas\<close>

lemma accessors_not_KeyError: "accessors v s \<noteq> Inl (KeyError k)"
  by (induction v s rule: accessors.induct) (auto simp: Let_def)

lemma render_field_KeyError:
  assumes "map fst kw1 = map fst kw2" and "render_field kw1 nm cv sp = Inl (KeyError k)"
  shows "render_field kw2 nm cv sp = Inl (KeyError k)"
proof -
  let ?first = "takeWhile (\<lambda>x. x \<noteq> CHR ''.'' \<and> x \<noteq> CHR ''['') nm"
  have dom: "map_of kw1 n = None \<longleftrightarrow> map_of kw2 n = None" for n
    using assms(1) by (metis map_of_eq_None_iff set_map)
  from assms(2) have "map_of kw1 ?first = None \<and> k = ?first \<and> ?first \<noteq> [] \<and> \<not> is_integer ?first"
    using accessors_not_KeyError
    by (auto simp: render_field_def Let_def split: if_splits option.splits sum.splits)
  with dom show ?thesis
    by (simp add: render_field_def Let_def)
qed

lemma render_items_KeyError:
  assumes "map fst kw1 = map fst kw2"
  shows "render_items kw1 items err = Inl (KeyError k) \<Longrightarrow> \<exists>e. render_items kw2 items err = Inl e"
proof (induction items)
  case Nil
  then show ?case by (auto split: option.splits)
next
  case (Cons i items)
  show ?case
  proof (cases i)
    case (Literal s)
    with Cons show ?thesis by (auto split: sum.splits)
  next
    case (Field nm cv sp)
    show ?thesis
    proof (cases "render_field kw1 nm cv sp")
      case (Inl e)
      with Field Cons.prems have "render_field kw1 nm cv sp = Inl (KeyError k)" by simp
      from render_field_KeyError [OF assms this] Field show ?thesis by simp
    next
      case (Inr v)
      with Field Cons.prems have "render_items kw1 items err = Inl (KeyError k)"
        by (auto split: sum.splits)
      from Cons.IH [OF this] Field show ?thesis by (auto split: sum.splits)
    qed
  qed
qed

lemma py_format_KeyError:
  "py_format t (format_kwargs rq v) = Inl (KeyError k) \<Longrightarrow>
   \<exists>e. py_format t (format_kwargs rq u) = Inl e"
  unfolding py_format_def
  by (auto simp: format_kwargs_def split: prod.splits
      elim!: render_items_KeyError [rotated])

lemma field_names_plain: "n \<in> set field_names \<Longrightarrow> plain_name n"
  by (auto simp: field_names_def plain_name_def is_integer_def is_digit_def)

lemma markup_text_char:
  "c \<noteq> CHR ''{'' \<Longrightarrow> c \<noteq> CHR ''}'' \<Longrightarrow>
   markup InText lit nm cv sp (c # cs) = markup InText (lit @ [c]) nm cv sp cs"
  by (cases cs) simp_all

lemma markup_text:
  "CHR ''{'' \<notin> set s \<Longrightarrow> CHR ''}'' \<notin> set s \<Longrightarrow>
   markup InText lit nm cv sp (s @ cs) = markup InText (lit @ s) nm cv sp cs"
proof (induction s arbitrary: lit)
  case Nil
  show ?case by simp
next
  case (Cons a s)
  then have a: "a \<noteq> CHR ''{''" "a \<noteq> CHR ''}''" by auto
  have "markup InText lit nm cv sp ((a # s) @ cs) = markup InText (lit @ [a]) nm cv sp (s @ cs)"
    using markup_text_char [OF a] by simp
  also have "\<dots> = markup InText ((lit @ [a]) @ s) nm cv sp cs"
    using Cons.prems by (intro Cons.IH) auto
  finally show ?case by simp
qed

lemma markup_name:
  "set n \<inter> set ''{}[].!:'' = {} \<Longrightarrow>
   markup InName lit acc cv sp (n @ CHR ''}'' # cs) =
     (let (items, err) = markup InText [] [] None [] cs in (Field (acc @ n) None [] # items, err))"
  by (induction n arbitrary: acc) auto

lemma markup_hole:
  assumes "plain_name n"
  shows "markup InText lit [] None [] (CHR ''{'' # n @ CHR ''}'' # cs) =
     (let (items, err) = markup InText [] [] None [] cs
      in (lit_item lit @ Field n None [] # items, err))"
proof -
  from assms obtain d ds where n: "n = d # ds" "d \<noteq> CHR ''{''"
    by (cases n) (auto simp: plain_name_def)
  from assms have "set n \<inter> set ''{}[].!:'' = {}" by (simp add: plain_name_def)
  from markup_name [OF this, of "[]" "[]" None "[]" cs] n show ?thesis
    by (simp add: Let_def split: prod.splits)
qed

lemma render_items_lit:
  "render_items kwargs (lit_item lit @ items) err =
     (case render_items kwargs items err of Inl e \<Rightarrow> Inl e | Inr out \<Rightarrow> Inr (lit @ out))"
  by (cases lit) (auto split: sum.splits)

lemma render_field_plain:
  assumes "plain_name n" and "map_of kwargs n = Some v"
  shows "render_field kwargs n None [] = Inr v"
proof -
  from assms(1) have "\<forall>x\<in>set n. x \<noteq> CHR ''.'' \<and> x \<noteq> CHR ''[''"
    by (auto simp: plain_name_def)
  then have tw: "takeWhile (\<lambda>x. x \<noteq> CHR ''.'' \<and> x \<noteq> CHR ''['') n = n"
    and dw: "dropWhile (\<lambda>x. x \<noteq> CHR ''.'' \<and> x \<noteq> CHR ''['') n = []"
    by (simp_all add: takeWhile_eq_all_conv dropWhile_eq_Nil_conv)
  show ?thesis
    unfolding render_field_def Let_def tw dw using assms by (simp add: plain_name_def)
qed

lemma render_segments:
  assumes "\<forall>s. Text s \<in> set segs \<longrightarrow> CHR ''{'' \<notin> set s \<and> CHR ''}'' \<notin> set s"
    and "\<forall>n. Hole n \<in> set segs \<longrightarrow> plain_name n \<and> map_of kwargs n \<noteq> None"
  shows "(let (items, err) = markup InText lit [] None [] (template_of segs)
          in render_items kwargs items err) = Inr (lit @ fill kwargs segs)"
  using assms
proof (induction segs arbitrary: lit)
  case Nil
  show ?case by (cases lit) simp_all
next
  case (Cons seg segs)
  have rest: "\<forall>s. Text s \<in> set segs \<longrightarrow> CHR ''{'' \<notin> set s \<and> CHR ''}'' \<notin> set s"
      "\<forall>n. Hole n \<in> set segs \<longrightarrow> plain_name n \<and> map_of kwargs n \<noteq> None"
    using Cons.prems by simp_all
  show ?case
  proof (cases seg)
    case (Text s)
    with Cons.prems(1) have "CHR ''{'' \<notin> set s" "CHR ''}'' \<notin> set s" by simp_all
    then have "markup InText lit [] None [] (template_of (seg # segs))
        = markup InText (lit @ s) [] None [] (template_of segs)"
      using Text by (simp add: markup_text)
    with Cons.IH [OF rest, of "lit @ s"] Text show ?thesis by simp
  next
    case (Hole n)
    with Cons.prems(2) obtain v where n: "plain_name n" "map_of kwargs n = Some v" by auto
    from Cons.IH [OF rest, of "[]"] obtain items err where
      m: "markup InText [] [] None [] (template_of segs) = (items, err)"
         "render_items kwargs items err = Inr (fill kwargs segs)"
      by (auto split: prod.splits)
    from markup_hole [OF n(1), of lit "template_of segs"] m(1) Hole
    have "markup InText lit [] None [] (template_of (seg # segs))
        = (lit_item lit @ Field n None [] # items, err)"
      by simp
    with m(2) n Hole show ?thesis
      by (simp add: render_items_lit render_field_plain)
  qed
qed

lemma fill_no_brace:
  assumes "\<forall>s. Text s \<in> set segs \<longrightarrow> c \<notin> set s"
    and "\<forall>val\<in>snd ` set kwargs. c \<notin> set val"
  shows "c \<notin> set (fill kwargs segs)"
  using assms(1)
proof (induction segs)
  case Nil
  show ?case by simp
next
  case (Cons seg segs)
  show ?case
  proof (cases seg)
    case (Text s)
    with Cons show ?thesis by simp
  next
    case (Hole n)
    have "c \<notin> set (case map_of kwargs n of Some v \<Rightarrow> v | None \<Rightarrow> [])"
    proof (cases "map_of kwargs n")
      case None
      then show ?thesis by simp
    next
      case (Some v)
      then have "(n, v) \<in> set kwargs" by (rule map_of_SomeD)
      with assms(2) have "c \<notin> set v" by force
      with Some show ?thesis by simp
    qed
    with Hole Cons show ?thesis by simp
  qed
qed

lemma fill_field_value:
  "\<forall>n. Hole n \<in> set segs \<longrightarrow> n \<in> set field_names \<Longrightarrow>
   fill (format_kwargs rq variable) segs = substitute (field_value rq variable) segs"
proof (induction segs)
  case Nil
  show ?case by simp
next
  case (Cons seg segs)
  then have rest: "fill (format_kwargs rq variable) segs = substitute (field_value rq variable) segs"
    by simp
  show ?case
  proof (cases seg)
    case (Text s)
    with rest show ?thesis by simp
  next
    case (Hole n)
    with Cons.prems have "n \<in> set field_names" by simp
    then have "map_of (format_kwargs rq variable) n = Some (field_value rq variable n)"
      by (auto simp: field_names_def format_kwargs_def field_value_def)
    with Hole rest show ?thesis by simp
  qed
qed

lemma substitute_no_char:
  assumes "\<forall>s. Text s \<in> set segs \<longrightarrow> c \<notin> set s"
    and "\<forall>n. Hole n \<in> set segs \<longrightarrow> c \<notin> set (val n)"
  shows "c \<notin> set (substitute val segs)"
  using assms
proof (induction segs)
  case Nil
  show ?case by simp
next
  case (Cons seg segs)
  then show ?case by (cases seg) simp_all
qed

section \<open>The two loops: lemmas\<close>

lemma subprocess_run_cases:
  assumes "subprocess_run pf args w = (r, w')"
  obtains res where "procs w' = procs w @ [Invocation args res]"
    and "cwd w' = cwd w" and "stdout w' = stdout w"
    and "r = (if res = Exited 0 then Inr () else Inl (proc_error args res))"
proof -
  obtain res x where sp: "spawn pf args (cwd w) (ext w) = (res, x)"
    by (cases "spawn pf args (cwd w) (ext w)")
  from assms sp have "procs w' = procs w @ [Invocation args res]"
    and "cwd w' = cwd w" and "stdout w' = stdout w"
    and "r = (if res = Exited 0 then Inr () else Inl (proc_error args res))"
    by (auto simp: subprocess_run_def proc_error_def Let_def split: proc_result.splits if_splits)
  then show thesis by (rule that)
qed

lemma resolve_abs: "is_abs c \<Longrightarrow> resolve d c = c"
  by (simp add: resolve_def is_abs_def)

lemma os_chdir_cases:
  assumes "os_chdir pf path w = (r, w')"
  shows "procs w' = procs w"
    and "r = Inr () \<Longrightarrow> cwd w' = resolve (cwd w) path"
    and "r \<noteq> Inr () \<Longrightarrow> cwd w' = cwd w"
  using assms by (auto simp: os_chdir_def split: option.splits)

lemma verify_loop_cwd:
  "verify_loop pf rq vs paths w = (r, w') \<Longrightarrow> cwd w' = cwd w"
proof (induction vs arbitrary: paths w)
  case Nil
  then show ?case by simp
next
  case (Cons v vs)
  show ?case
  proof (cases "render pf rq v")
    case (Inl e)
    with Cons.prems show ?thesis by simp
  next
    case (Inr p)
    show ?thesis
    proof (cases "verify_first rq")
      case False
      with Inr Cons.prems Cons.IH show ?thesis by simp
    next
      case True
      obtain r1 w1 where run: "subprocess_run pf (hsi_args p) w = (r1, w1)"
        by (cases "subprocess_run pf (hsi_args p) w")
      then have c: "cwd w1 = cwd w" by (rule subprocess_run_cases)
      show ?thesis
      proof (cases r1)
        case (Inl e)
        with Inr True run c Cons.prems show ?thesis by simp
      next
        case (Inr u)
        with \<open>render pf rq v = Inr p\<close> True run Cons.prems
        have "verify_loop pf rq vs (paths(v \<mapsto> p)) w1 = (r, w')" by simp
        then have "cwd w' = cwd w1" by (rule Cons.IH)
        with c show ?thesis by simp
      qed
    qed
  qed
qed

lemma verify_loop_ok:
  "verify_loop pf rq vs paths w = (Inr paths', w') \<Longrightarrow>
   (\<forall>v\<in>set vs. renders pf rq v) \<and> procs w' = procs w @ checks pf rq vs
   \<and> (\<forall>v. paths' v = (if v \<in> set vs then Some (path_of pf rq v) else paths v))"
proof (induction vs arbitrary: paths w)
  case Nil
  then show ?case by (simp add: checks_def)
next
  case (Cons v vs)
  from Cons.prems obtain p where p: "render pf rq v = Inr p"
    by (cases "render pf rq v") auto
  then have pv: "path_of pf rq v = p" "renders pf rq v"
    by (simp_all add: path_of_def renders_def)
  show ?case
  proof (cases "verify_first rq")
    case False
    with p Cons.prems have "verify_loop pf rq vs (paths(v \<mapsto> p)) w = (Inr paths', w')"
      by simp
    from Cons.IH [OF this] show ?thesis
      using pv False by (auto simp: checks_def)
  next
    case True
    obtain r1 w1 where run: "subprocess_run pf (hsi_args p) w = (r1, w1)"
      by (cases "subprocess_run pf (hsi_args p) w")
    from run obtain res where res: "procs w1 = procs w @ [Invocation (hsi_args p) res]"
        "r1 = (if res = Exited 0 then Inr () else Inl (proc_error (hsi_args p) res))"
      by (rule subprocess_run_cases)
    from p True run Cons.prems have r1: "r1 = Inr ()"
      by (cases r1) auto
    with res have ok: "res = Exited 0" by (auto split: if_splits)
    from p True run r1 Cons.prems
    have "verify_loop pf rq vs (paths(v \<mapsto> p)) w1 = (Inr paths', w')" by simp
    from Cons.IH [OF this] show ?thesis
      using pv True res(1) ok by (auto simp: checks_def)
  qed
qed

lemma verify_loop_err:
  "verify_loop pf rq vs paths w = (Inl e, w') \<Longrightarrow>
   \<exists>pre v rest tail. vs = pre @ v # rest \<and> (\<forall>u\<in>set pre. renders pf rq u)
     \<and> procs w' = procs w @ checks pf rq pre @ tail
     \<and> ((render pf rq v = Inl e \<and> tail = [])
        \<or> (\<exists>res. renders pf rq v \<and> verify_first rq \<and> res \<noteq> Exited 0
              \<and> tail = [Invocation (hsi_args (path_of pf rq v)) res]
              \<and> e = RuntimeError (verify_message (path_of pf rq v))))"
proof (induction vs arbitrary: paths w)
  case Nil
  then show ?case by simp
next
  case (Cons v vs)
  show ?case
  proof (cases "render pf rq v")
    case (Inl e1)
    with Cons.prems have "e1 = e" "w' = w" by simp_all
    with Inl have "v # vs = [] @ v # vs \<and> (\<forall>u\<in>set []. renders pf rq u)
        \<and> procs w' = procs w @ checks pf rq [] @ [] \<and> render pf rq v = Inl e"
      by (simp add: checks_def)
    then show ?thesis by blast
  next
    case (Inr p)
    then have pv: "path_of pf rq v = p" "renders pf rq v"
      by (simp_all add: path_of_def renders_def)
    have step: "\<exists>pre u rest tail. v # vs = pre @ u # rest \<and> (\<forall>u\<in>set pre. renders pf rq u)
         \<and> procs w' = procs w @ checks pf rq pre @ tail
         \<and> ((render pf rq u = Inl e \<and> tail = [])
            \<or> (\<exists>res. renders pf rq u \<and> verify_first rq \<and> res \<noteq> Exited 0
                  \<and> tail = [Invocation (hsi_args (path_of pf rq u)) res]
                  \<and> e = RuntimeError (verify_message (path_of pf rq u))))"
      if rec: "verify_loop pf rq vs (paths(v \<mapsto> p)) w1 = (Inl e, w')"
        and log: "procs w1 = procs w @ checks pf rq [v]" for w1
    proof -
      from Cons.IH [OF rec] obtain pre u rest tail where
        a: "vs = pre @ u # rest" "\<forall>u\<in>set pre. renders pf rq u"
           "procs w' = procs w1 @ checks pf rq pre @ tail"
           "(render pf rq u = Inl e \<and> tail = [])
            \<or> (\<exists>res. renders pf rq u \<and> verify_first rq \<and> res \<noteq> Exited 0
                  \<and> tail = [Invocation (hsi_args (path_of pf rq u)) res]
                  \<and> e = RuntimeError (verify_message (path_of pf rq u)))"
        by blast
      from a(1) have "v # vs = (v # pre) @ u # rest" by simp
      moreover from a(2) pv have "\<forall>u\<in>set (v # pre). renders pf rq u" by simp
      moreover from a(3) log have "procs w' = procs w @ checks pf rq (v # pre) @ tail"
        by (simp add: checks_def)
      ultimately show ?thesis using a(4) by blast
    qed
    show ?thesis
    proof (cases "verify_first rq")
      case False
      with Inr Cons.prems have "verify_loop pf rq vs (paths(v \<mapsto> p)) w = (Inl e, w')"
        by simp
      moreover from False have "procs w = procs w @ checks pf rq [v]"
        by (simp add: checks_def)
      ultimately show ?thesis by (rule step)
    next
      case True
      obtain r1 w1 where run: "subprocess_run pf (hsi_args p) w = (r1, w1)"
        by (cases "subprocess_run pf (hsi_args p) w")
      from run obtain res where res: "procs w1 = procs w @ [Invocation (hsi_args p) res]"
          "r1 = (if res = Exited 0 then Inr () else Inl (proc_error (hsi_args p) res))"
        by (rule subprocess_run_cases)
      show ?thesis
      proof (cases "res = Exited 0")
        case ok: True
        with res have r1: "r1 = Inr ()" by simp
        with Inr True run Cons.prems
        have "verify_loop pf rq vs (paths(v \<mapsto> p)) w1 = (Inl e, w')" by simp
        moreover from res(1) ok pv True have "procs w1 = procs w @ checks pf rq [v]"
          by (simp add: checks_def)
        ultimately show ?thesis by (rule step)
      next
        case bad: False
        with res obtain e1 where r1: "r1 = Inl e1" by simp
        with Inr True run Cons.prems
        have "e = RuntimeError (verify_message p)" "w' = w1" by simp_all
        with res(1) bad pv True
        have "v # vs = [] @ v # vs \<and> (\<forall>u\<in>set []. renders pf rq u)
            \<and> procs w' = procs w @ checks pf rq [] @ [Invocation (hsi_args (path_of pf rq v)) res]
            \<and> renders pf rq v \<and> verify_first rq \<and> res \<noteq> Exited 0
            \<and> e = RuntimeError (verify_message (path_of pf rq v))"
          by (simp add: checks_def)
        then show ?thesis by blast
      qed
    qed
  qed
qed

lemma extract_one_cases:
  assumes "extract_one pf rq v p d w = (r, w')"
  shows "(r = Inr () \<and> procs w' = procs w @ [Invocation (htar_args rq p) (Exited 0)]
          \<and> cwd w' = resolve (resolve (cwd w) d) (cwd w))
       \<or> (\<exists>e. r = Inl e \<and> procs w' = procs w)
       \<or> (\<exists>e. r = Inl e \<and> procs w' = procs w @ [Invocation (htar_args rq p) (Exited 0)])
       \<or> (\<exists>res. res \<noteq> Exited 0 \<and> r = Inl (proc_error (htar_args rq p) res)
             \<and> procs w' = procs w @ [Invocation (htar_args rq p) res]
             \<and> cwd w' = resolve (cwd w) d)"
proof (cases "makedirs pf d (cwd w) (ext w)")
  case (Pair made x)
  let ?w1 = "w\<lparr>ext := x\<rparr>"
  show ?thesis
  proof (cases made)
  case (Some e)
  with Pair assms show ?thesis by (auto simp: extract_one_def)
next
  case Inr: None
  obtain r2 w2 where cd: "os_chdir pf d ?w1 = (r2, w2)"
    by (cases "os_chdir pf d ?w1")
  note cd2 = os_chdir_cases [OF cd]
  show ?thesis
  proof (cases r2)
    case (Inl e)
    with assms Pair Inr cd cd2(1) show ?thesis by (auto simp: extract_one_def)
  next
    case r2: (Inr u)
    let ?w2' = "vprint rq (extract_message v p) w2"
    have pr: "procs ?w2' = procs w" "cwd ?w2' = resolve (cwd w) d"
      using cd2(1,2) r2 by (simp_all add: vprint_def)
    obtain r3 w3 where run: "subprocess_run pf (htar_args rq p) ?w2' = (r3, w3)"
      by (cases "subprocess_run pf (htar_args rq p) ?w2'")
    from run obtain res where res: "procs w3 = procs ?w2' @ [Invocation (htar_args rq p) res]"
        "cwd w3 = cwd ?w2'"
        "r3 = (if res = Exited 0 then Inr () else Inl (proc_error (htar_args rq p) res))"
      by (rule subprocess_run_cases)
    show ?thesis
    proof (cases "res = Exited 0")
      case False
      with res(3) have "r3 = Inl (proc_error (htar_args rq p) res)" by simp
      with assms Pair Inr cd r2 run have "r = Inl (proc_error (htar_args rq p) res)" "w' = w3"
        by (auto simp: extract_one_def)
      with False res pr show ?thesis by auto
    next
      case True
      with res(3) have "r3 = Inr ()" by simp
      with assms Pair Inr cd r2 run have restore: "os_chdir pf (cwd w) w3 = (r, w')"
        by (simp add: extract_one_def)
      note b = os_chdir_cases [OF restore]
      show ?thesis
      proof (cases r)
        case (Inl e)
        with b(1) res(1) pr True show ?thesis by simp
      next
        case (Inr u)
        with b(1,2) res(1,2) pr True show ?thesis by simp
      qed
    qed
  qed
qed
qed

lemma extract_loop_shape:
  assumes "extract_loop pf rq vs paths w = (r, w')"
    and "\<forall>v\<in>set vs. paths v = Some (P v)"
  shows "\<exists>pre rest tail. vs = pre @ rest
           \<and> procs w' = procs w @ map (\<lambda>v. Invocation (htar_args rq (P v)) (Exited 0)) pre @ tail
           \<and> loop_end rq P r rest tail (cwd w) (cwd w')"
  using assms
proof (induction vs arbitrary: w)
  case Nil
  then show ?case by (auto simp: loop_end_def)
next
  case (Cons v vs)
  let ?ok = "\<lambda>v. Invocation (htar_args rq (P v)) (Exited 0)"
  let ?d = "out_dir_of rq (P v)"
  from Cons.prems(2) have pv: "paths v = Some (P v)" by simp
  have stop: ?case
    if "procs w' = procs w @ tail" and "loop_end rq P r (v # vs) tail (cwd w) (cwd w')" for tail
  proof -
    from that have "v # vs = [] @ v # vs
        \<and> procs w' = procs w @ map ?ok [] @ tail
        \<and> loop_end rq P r (v # vs) tail (cwd w) (cwd w')"
      by simp
    then show ?thesis by blast
  qed
  show ?case
  proof (cases "files_exist pf rq ?d w")
    case (Inl e)
    with Cons.prems(1) pv have "r = Inl e" "w' = w" by auto
    then have "procs w' = procs w @ []" "loop_end rq P r (v # vs) [] (cwd w) (cwd w')"
      by (simp_all add: loop_end_def)
    then show ?thesis by (rule stop)
  next
    case (Inr b)
    show ?thesis
    proof (cases b)
      case True
      with Inr Cons.prems(1) pv have "r = Inr Skipped" "w' = vprint rq (skip_message ?d) w"
        by auto
      moreover from Inr True have "\<not> clobber rq"
        by (auto simp: files_exist_def split: if_splits)
      ultimately have "procs w' = procs w @ []" "loop_end rq P r (v # vs) [] (cwd w) (cwd w')"
        by (simp_all add: loop_end_def vprint_def)
      then show ?thesis by (rule stop)
    next
      case False
      obtain r1 w1 where one: "extract_one pf rq v (P v) ?d w = (r1, w1)"
        by (cases "extract_one pf rq v (P v) ?d w")
      from extract_one_cases [OF one]
      consider (ok) "r1 = Inr ()" "procs w1 = procs w @ [?ok v]"
          "cwd w1 = resolve (resolve (cwd w) ?d) (cwd w)"
        | (early) e where "r1 = Inl e" "procs w1 = procs w"
        | (late) e where "r1 = Inl e" "procs w1 = procs w @ [?ok v]"
        | (failed) res where "res \<noteq> Exited 0" "r1 = Inl (proc_error (htar_args rq (P v)) res)"
            "procs w1 = procs w @ [Invocation (htar_args rq (P v)) res]"
            "cwd w1 = resolve (cwd w) ?d"
        by blast
      then show ?thesis
      proof cases
        case early
        with Inr False one Cons.prems(1) pv have "r = Inl e" "w' = w1" by auto
        with early have "procs w' = procs w @ []" "loop_end rq P r (v # vs) [] (cwd w) (cwd w')"
          by (simp_all add: loop_end_def)
        then show ?thesis by (rule stop)
      next
        case late
        with Inr False one Cons.prems(1) pv have "r = Inl e" "w' = w1" by auto
        with late have "procs w' = procs w @ [?ok v]"
            "loop_end rq P r (v # vs) [?ok v] (cwd w) (cwd w')"
          by (simp_all add: loop_end_def)
        then show ?thesis by (rule stop)
      next
        case failed
        with Inr False one Cons.prems(1) pv
        have "r = Inl (proc_error (htar_args rq (P v)) res)" "w' = w1" by auto
        with failed have "procs w' = procs w @ [Invocation (htar_args rq (P v)) res]"
            "loop_end rq P r (v # vs) [Invocation (htar_args rq (P v)) res] (cwd w) (cwd w')"
          by (simp_all add: loop_end_def)
        then show ?thesis by (rule stop)
      next
        case ok
        with Inr False one Cons.prems(1) pv
        have rec: "extract_loop pf rq vs paths w1 = (r, w')" by simp
        from Cons.prems(2) have "\<forall>v\<in>set vs. paths v = Some (P v)" by simp
        from Cons.IH [OF rec this] obtain pre rest tail where
          a: "vs = pre @ rest" "procs w' = procs w1 @ map ?ok pre @ tail"
             "loop_end rq P r rest tail (cwd w1) (cwd w')"
          by blast
        have c: "is_abs (cwd w) \<Longrightarrow> cwd w1 = cwd w"
          using ok(3) by (simp add: resolve_abs)
        from a(3) c have "loop_end rq P r rest tail (cwd w) (cwd w')"
          by (cases "is_abs (cwd w)") (auto simp: loop_end_def split: sum.splits finish.splits)
        moreover from a(1) have "v # vs = (v # pre) @ rest" by simp
        moreover from a(2) ok(2) have "procs w' = procs w @ map ?ok (v # pre) @ tail" by simp
        ultimately show ?thesis by blast
      qed
    qed
  qed
qed

lemma extract_loop_append:
  "extract_loop pf rq (xs @ ys) paths w =
     (case extract_loop pf rq xs paths w of
        (Inr Completed, w1) \<Rightarrow> extract_loop pf rq ys paths w1
      | other \<Rightarrow> other)"
  by (induction xs arbitrary: w)
     (auto simp: Let_def split: option.splits sum.splits bool.splits prod.splits finish.splits)

lemma new_procs_append: "procs w' = procs w @ new \<Longrightarrow> new_procs w w' = new"
  by (simp add: new_procs_def)

lemma program_simps [simp]:
  "program (Invocation (hsi_args p) res) = ''hsi''"
  "program (Invocation (htar_args rq p) res) = ''htar''"
  by (simp_all add: program_def hsi_args_def htar_args_def)

lemma renders_path_of: "renders pf rq v \<Longrightarrow> render pf rq v = Inr (path_of pf rq v)"
  by (simp add: renders_def path_of_def split: sum.splits)

lemma run_cases:
  assumes "extract_c20c_data pf rq w = (r, w')"
  obtains (verifying) e pre v rest tail where
      "r = Inl e" "variables rq = pre @ v # rest" "\<forall>u\<in>set pre. renders pf rq u"
      "new_procs w w' = checks pf rq pre @ tail" "verify_end pf rq e v tail" "cwd w' = cwd w"
    | (extracting) pre rest tail where
      "\<forall>v\<in>set (variables rq). renders pf rq v" "variables rq = pre @ rest"
      "new_procs w w' = checks pf rq (variables rq) @ extractions pf rq pre @ tail"
      "loop_end rq (path_of pf rq) r rest tail (cwd w) (cwd w')"
proof -
  define w0 where "w0 = announce rq w"
  have w0: "procs w0 = procs w" "cwd w0 = cwd w"
    by (simp_all add: w0_def announce_def vprint_def)
  obtain r1 w1 where v: "verify_loop pf rq (variables rq) Map.empty w0 = (r1, w1)"
    by (cases "verify_loop pf rq (variables rq) Map.empty w0")
  have c1: "cwd w1 = cwd w"
    using verify_loop_cwd [OF v] w0 by simp
  show thesis
  proof (cases r1)
    case (Inl e)
    with assms v have r: "r = Inl e" "w' = w1"
      by (auto simp: extract_c20c_data_def w0_def)
    from v Inl have "verify_loop pf rq (variables rq) Map.empty w0 = (Inl e, w1)" by simp
    from verify_loop_err [OF this] obtain pre u rest tail where
      a: "variables rq = pre @ u # rest" "\<forall>u\<in>set pre. renders pf rq u"
         "procs w1 = procs w0 @ checks pf rq pre @ tail"
         "verify_end pf rq e u tail"
      unfolding verify_end_def by blast
    from a(3) w0 r have "new_procs w w' = checks pf rq pre @ tail"
      by (simp add: new_procs_append)
    with r a c1 show thesis by (intro verifying) auto
  next
    case (Inr paths)
    with assms v have e: "extract_loop pf rq (variables rq) paths w1 = (r, w')"
      by (auto simp: extract_c20c_data_def w0_def)
    from v Inr have "verify_loop pf rq (variables rq) Map.empty w0 = (Inr paths, w1)" by simp
    from verify_loop_ok [OF this] have
      b: "\<forall>v\<in>set (variables rq). renders pf rq v"
         "procs w1 = procs w0 @ checks pf rq (variables rq)"
         "\<forall>v\<in>set (variables rq). paths v = Some (path_of pf rq v)"
      by auto
    from extract_loop_shape [OF e b(3)] obtain pre rest tail where
      s: "variables rq = pre @ rest"
         "procs w' = procs w1 @ extractions pf rq pre @ tail"
         "loop_end rq (path_of pf rq) r rest tail (cwd w1) (cwd w')"
      unfolding extractions_def by blast
    from s(2) b(2) w0 have
      "new_procs w w' = checks pf rq (variables rq) @ extractions pf rq pre @ tail"
      by (simp add: new_procs_append)
    with b(1) s(1) s(3) c1 show thesis by (intro extracting) auto
  qed
qed

lemma checks_props:
  "c \<in> set (checks pf rq vs) \<Longrightarrow> result c = Exited 0 \<and> program c = ''hsi''"
  by (auto simp: checks_def split: if_splits)

lemma extractions_props:
  "c \<in> set (extractions pf rq vs) \<Longrightarrow> result c = Exited 0 \<and> program c = ''htar''"
  by (auto simp: extractions_def)

lemma failed_is_last:
  assumes "xs @ tail = before @ c # after" and "\<forall>x\<in>set xs. result x = Exited 0"
    and "result c \<noteq> Exited 0" and "length tail \<le> 1"
  shows "after = [] \<and> tail = [c]"
proof (cases tail)
  case Nil
  with assms(1) have "c \<in> set xs" by (metis append_Nil2 in_set_conv_decomp)
  with assms(2,3) show ?thesis by blast
next
  case (Cons t ts)
  with assms(4) have tail: "tail = [t]" by simp
  show ?thesis
  proof (cases after rule: rev_cases)
    case Nil
    with assms(1) tail show ?thesis by simp
  next
    case (snoc ys y)
    with assms(1) tail have "xs = before @ c # ys" by simp
    then have "c \<in> set xs" by simp
    with assms(2,3) show ?thesis by blast
  qed
qed

lemma loop_end_tail:
  "loop_end rq P r rest tail c c' \<Longrightarrow>
   length tail \<le> 1 \<and> (\<forall>x\<in>set tail. program x = ''htar'')"
  by (auto simp: loop_end_def split: sum.splits)

lemma verify_end_tail:
  "verify_end pf rq e v tail \<Longrightarrow>
   length tail \<le> 1 \<and> (\<forall>x\<in>set tail. program x = ''hsi'' \<and> result x \<noteq> Exited 0)"
  by (auto simp: verify_end_def)









lemma takeWhile_length:
  "vs = pre @ rest \<Longrightarrow> \<forall>u\<in>set pre. P u \<Longrightarrow> length pre \<le> length (takeWhile P vs)"
  by (simp add: takeWhile_append2)

section \<open>The example runs, evaluated\<close>

lemmas demo_defs =
  extract_c20c_data_def announce_def variables_def short_request_def demo_platform_def
  demo_world_def render_def format_kwargs_def py_format_def render_field_def is_integer_def
  is_digit_def hsi_args_def htar_args_def rstrip_def py_isspace_def subprocess_run_def
  verify_message_def vprint_def out_dir_of_def py_find_def slice_from_def dirname_def
  py_rfind_char_def rstrip_char_def files_exist_def extract_one_def os_chdir_def resolve_def
  str_int_def str_nat.simps digit_char_def extract_message_def skip_message_def

lemma demo_run_verify_fails:
  "extract_c20c_data (demo_platform [[''hsi'', ''ls /t/LBNL/M/ua/ua_r1.tar'']] []) short_request demo_world
   = (Inl (RuntimeError ''Failed to verify that `/t/LBNL/M/ua/ua_r1.tar` exists.''),
      \<lparr> cwd = ''/home/user'', ext = (),
        procs = [Invocation [''hsi'', ''ls /t/LBNL/M/hus/hus_r1.tar''] (Exited 0),
                 Invocation [''hsi'', ''ls /t/LBNL/M/ua/ua_r1.tar''] (Exited 1)],
        stdout = [] \<rparr>)"
  by (simp add: demo_defs)

lemma demo_run_extract_fails:
  "extract_c20c_data (demo_platform [[''htar'', ''-T'', ''15'', ''-xf'', ''/t/LBNL/M/ua/ua_r1.tar'']] []) short_request demo_world
   = (Inl (CalledProcessError 1 [''htar'', ''-T'', ''15'', ''-xf'', ''/t/LBNL/M/ua/ua_r1.tar'']),
      \<lparr> cwd = ''/home/user/LBNL/M/ua'', ext = (),
        procs = [Invocation [''hsi'', ''ls /t/LBNL/M/hus/hus_r1.tar''] (Exited 0),
                 Invocation [''hsi'', ''ls /t/LBNL/M/ua/ua_r1.tar''] (Exited 0),
                 Invocation [''hsi'', ''ls /t/LBNL/M/va/va_r1.tar''] (Exited 0),
                 Invocation [''htar'', ''-T'', ''15'', ''-xf'', ''/t/LBNL/M/hus/hus_r1.tar''] (Exited 0),
                 Invocation [''htar'', ''-T'', ''15'', ''-xf'', ''/t/LBNL/M/ua/ua_r1.tar''] (Exited 1)],
        stdout = [] \<rparr>)"
  by code_simp

lemma demo_run_completes:
  "extract_c20c_data (demo_platform [] []) short_request demo_world
   = (Inr Completed,
      \<lparr> cwd = ''/home/user'', ext = (),
        procs = [Invocation [''hsi'', ''ls /t/LBNL/M/hus/hus_r1.tar''] (Exited 0),
                 Invocation [''hsi'', ''ls /t/LBNL/M/ua/ua_r1.tar''] (Exited 0),
                 Invocation [''hsi'', ''ls /t/LBNL/M/va/va_r1.tar''] (Exited 0),
                 Invocation [''htar'', ''-T'', ''15'', ''-xf'', ''/t/LBNL/M/hus/hus_r1.tar''] (Exited 0),
                 Invocation [''htar'', ''-T'', ''15'', ''-xf'', ''/t/LBNL/M/ua/ua_r1.tar''] (Exited 0),
                 Invocation [''htar'', ''-T'', ''15'', ''-xf'', ''/t/LBNL/M/va/va_r1.tar''] (Exited 0)],
        stdout = [] \<rparr>)"
  by (simp add: demo_defs)

lemma index_run:
  "extract_c20c_data (demo_platform [] []) index_request demo_world
   = (Inl IndexError,
      \<lparr> cwd = ''/home/user'', ext = (),
        procs = [Invocation [''hsi'', ''ls /t/h.tar''] (Exited 0)], stdout = [] \<rparr>)"
  by (simp add: demo_defs index_request_def)

lemma index_render:
  "render (demo_platform [] []) index_request [] = Inl IndexError"
  by (simp add: demo_defs index_request_def)

lemma keep_verify:
  "verify_loop (demo_platform [] [''LBNL/M/ua'']) keep_request (variables keep_request) Map.empty
     (announce keep_request demo_world)
   = (Inr (Map.empty(''hus'' \<mapsto> ''/t/LBNL/M/hus/hus_r1.tar'', ''ua'' \<mapsto> ''/t/LBNL/M/ua/ua_r1.tar'',
                 ''va'' \<mapsto> ''/t/LBNL/M/va/va_r1.tar'')), demo_world)"
  by (simp add: demo_defs keep_request_def)

lemma keep_first:
  "extract_loop (demo_platform [] [''LBNL/M/ua'']) keep_request [''hus'']
     (Map.empty(''hus'' \<mapsto> ''/t/LBNL/M/hus/hus_r1.tar'', ''ua'' \<mapsto> ''/t/LBNL/M/ua/ua_r1.tar'',
                 ''va'' \<mapsto> ''/t/LBNL/M/va/va_r1.tar'')) demo_world
   = (Inr Completed,
      \<lparr> cwd = ''/home/user'', ext = (),
        procs = [Invocation [''htar'', ''-T'', ''15'', ''-xf'', ''/t/LBNL/M/hus/hus_r1.tar''] (Exited 0)],
        stdout = [] \<rparr>)"
  by (simp add: demo_defs keep_request_def)

lemma keep_out_dir: "out_dir_of keep_request ''/t/LBNL/M/ua/ua_r1.tar'' = ''LBNL/M/ua''"
  by (simp add: demo_defs keep_request_def)

lemma demo_world_simps:
  "cwd demo_world = ''/home/user''" "procs demo_world = []" "stdout demo_world = []"
  by (simp_all add: demo_world_def)

section \<open>Properties of the run\<close>

text \<open>
  In the statements below, \<open>extract_c20c_data pf rq w = (r, w')\<close> is a run of the
  function from the state \<open>w\<close>: \<open>r\<close> is an exception (\<open>Inl\<close>) or the way the function
  returned (\<open>Inr\<close>), \<open>w'\<close> is the state it leaves, and \<open>new_procs w w'\<close> are the external
  commands that the run started, in order.
\<close>

text \<open>
  C1. Verification gates the whole run. If an \<open>hsi\<close> check that the run started did
  not end with exit status 0, then verification is enabled, the command was
  \<open>hsi\<close> with the argument \<open>ls p\<close> (stripped at the right) for the rendered path \<open>p\<close>
  of one of the requested variables, the run raises the \<open>RuntimeError\<close> with the
  message \<open>Failed to verify that `p` exists.\<close>, which names that path, and the run
  started no \<open>htar\<close> command at all, so no variable was extracted, whether its own
  check had passed or not.
\<close>

theorem verification_failure_aborts_run:
  assumes "extract_c20c_data pf rq w = (r, w')"
    and "call \<in> set (new_procs w w')"
    and "program call = ''hsi''"
    and "result call \<noteq> Exited 0"
  shows "verify_first rq
       \<and> (\<exists>v\<in>set (variables rq). \<exists>p. render pf rq v = Inr p
             \<and> argv call = [''hsi'', rstrip (''ls '' @ p)]
             \<and> r = Inl (RuntimeError (''Failed to verify that `'' @ p @ ''` exists.'')))
       \<and> (\<forall>c\<in>set (new_procs w w'). program c \<noteq> ''htar'')"
  using assms(1)
proof (cases rule: run_cases)
  case (verifying e pre v rest tail)
  let ?p = "path_of pf rq v"
  from assms(2,4) verifying(4) have "call \<in> set tail"
    by (auto dest: checks_props)
  with verifying(5) obtain res where t: "renders pf rq v" "verify_first rq"
      "tail = [Invocation (hsi_args ?p) res]"
      "e = RuntimeError (verify_message ?p)"
    by (auto simp: verify_end_def)
  from t(3) \<open>call \<in> set tail\<close> have "argv call = [''hsi'', rstrip (''ls '' @ ?p)]"
    by (auto simp: hsi_args_def)
  moreover from t(4) verifying(1)
  have "r = Inl (RuntimeError (''Failed to verify that `'' @ ?p @ ''` exists.''))"
    by (simp add: verify_message_def)
  moreover from verifying(2) have "v \<in> set (variables rq)" by simp
  moreover have "\<forall>c\<in>set (new_procs w w'). program c \<noteq> ''htar''"
    using verifying(4) t(3) by (auto dest: checks_props)
  ultimately show ?thesis
    using t(2) renders_path_of [OF t(1)] by blast
next
  case (extracting pre rest tail)
  from assms(2,4) extracting(3) have "call \<in> set tail"
    by (auto dest: checks_props extractions_props)
  with loop_end_tail [OF extracting(4)] have "program call = ''htar''" by blast
  with assms(3) show ?thesis by simp
qed

theorem verification_failure_aborts_run_witness:
  "verify_first short_request
   \<and> render (demo_platform [[''hsi'', ''ls /t/LBNL/M/ua/ua_r1.tar'']] []) short_request ''ua''
       = Inr ''/t/LBNL/M/ua/ua_r1.tar''
   \<and> fst (extract_c20c_data (demo_platform [[''hsi'', ''ls /t/LBNL/M/ua/ua_r1.tar'']] [])
            short_request demo_world)
       = Inl (RuntimeError ''Failed to verify that `/t/LBNL/M/ua/ua_r1.tar` exists.'')
   \<and> (\<exists>v\<in>set (variables short_request). \<exists>p.
         render (demo_platform [[''hsi'', ''ls /t/LBNL/M/ua/ua_r1.tar'']] []) short_request v = Inr p
         \<and> [''hsi'', ''ls /t/LBNL/M/ua/ua_r1.tar''] = [''hsi'', rstrip (''ls '' @ p)]
         \<and> fst (extract_c20c_data (demo_platform [[''hsi'', ''ls /t/LBNL/M/ua/ua_r1.tar'']] [])
                  short_request demo_world)
             = Inl (RuntimeError (''Failed to verify that `'' @ p @ ''` exists.'')))
   \<and> filter (\<lambda>c. program c = ''htar'')
        (procs (snd (extract_c20c_data
           (demo_platform [[''hsi'', ''ls /t/LBNL/M/ua/ua_r1.tar'']] []) short_request demo_world)))
       = []"
proof -
  let ?pf = "demo_platform [[''hsi'', ''ls /t/LBNL/M/ua/ua_r1.tar'']] []"
  have p: "render ?pf short_request ''ua'' = Inr ''/t/LBNL/M/ua/ua_r1.tar''"
    by (simp add: demo_defs)
  show ?thesis
    using verification_failure_aborts_run [OF demo_run_verify_fails,
        of "Invocation [''hsi'', ''ls /t/LBNL/M/ua/ua_r1.tar''] (Exited 1)"] p
    by (simp add: demo_run_verify_fails new_procs_def demo_world_simps program_def)
qed

text \<open>
  C2. With \<open>clobber\<close> false, the whole run ends at the first variable whose destination
  directory exists and is not empty. Let the requested variables be
  \<open>before @ variable # later\<close>, let the first loop succeed with the paths \<open>htar_paths\<close>
  and the second loop get through \<open>before\<close>, reaching the state \<open>w2\<close>. If in \<open>w2\<close> the
  destination directory of \<open>variable\<close> is a directory with at least one entry, then the
  run returns at line 132 without an exception, in the state \<open>w2\<close> with at most the
  message printed: no command is started for \<open>variable\<close> or for any variable of
  \<open>later\<close>.
\<close>

theorem clobber_skip_ends_run:
  assumes "\<not> clobber rq"
    and "variables rq = before @ variable # later"
    and "verify_loop pf rq (variables rq) Map.empty (announce rq w) = (Inr htar_paths, w1)"
    and "extract_loop pf rq before htar_paths w1 = (Inr Completed, w2)"
    and "htar_paths variable = Some htar_path"
    and "isdir pf (out_dir_of rq htar_path) (cwd w2) (ext w2)"
    and "listdir pf (out_dir_of rq htar_path) (cwd w2) (ext w2) = Inr names"
    and "names \<noteq> []"
  shows "extract_c20c_data pf rq w = (Inr Skipped, vprint rq (skip_message (out_dir_of rq htar_path)) w2)
       \<and> new_procs w2 (snd (extract_c20c_data pf rq w)) = []"
proof -
  have "files_exist pf rq (out_dir_of rq htar_path) w2 = Inr True"
    using assms(1,6,7,8) by (simp add: files_exist_def)
  then have "extract_loop pf rq (variable # later) htar_paths w2
      = (Inr Skipped, vprint rq (skip_message (out_dir_of rq htar_path)) w2)"
    using assms(5) by simp
  then have "extract_loop pf rq (variables rq) htar_paths w1
      = (Inr Skipped, vprint rq (skip_message (out_dir_of rq htar_path)) w2)"
    using assms(2,4) by (simp add: extract_loop_append)
  then have "extract_c20c_data pf rq w
      = (Inr Skipped, vprint rq (skip_message (out_dir_of rq htar_path)) w2)"
    using assms(3) by (simp add: extract_c20c_data_def)
  then show ?thesis by (simp add: new_procs_def vprint_def)
qed


theorem clobber_skip_ends_run_witness:
  "extract_c20c_data (demo_platform [] [''LBNL/M/ua'']) keep_request demo_world
   = (Inr Skipped,
      \<lparr> cwd = ''/home/user'', ext = (),
        procs = [Invocation [''htar'', ''-T'', ''15'', ''-xf'', ''/t/LBNL/M/hus/hus_r1.tar''] (Exited 0)],
        stdout = [] \<rparr>)"
proof -
  let ?pf = "demo_platform [] [''LBNL/M/ua'']"
  let ?w2 = "\<lparr> cwd = ''/home/user'', ext = (),
        procs = [Invocation [''htar'', ''-T'', ''15'', ''-xf'', ''/t/LBNL/M/hus/hus_r1.tar''] (Exited 0)],
        stdout = [] \<rparr>"
  let ?paths = "Map.empty(''hus'' \<mapsto> ''/t/LBNL/M/hus/hus_r1.tar'',
        ''ua'' \<mapsto> ''/t/LBNL/M/ua/ua_r1.tar'', ''va'' \<mapsto> ''/t/LBNL/M/va/va_r1.tar'')"
  have 1: "\<not> clobber keep_request"
    by (simp add: keep_request_def)
  have 2: "variables keep_request = [''hus''] @ ''ua'' # [''va'']"
    by (simp add: keep_request_def short_request_def variables_def)
  have 5: "?paths ''ua'' = Some ''/t/LBNL/M/ua/ua_r1.tar''"
    by simp
  have 6: "isdir ?pf (out_dir_of keep_request ''/t/LBNL/M/ua/ua_r1.tar'') (cwd ?w2) (ext ?w2)"
    by (simp add: keep_out_dir demo_platform_def)
  have 7: "listdir ?pf (out_dir_of keep_request ''/t/LBNL/M/ua/ua_r1.tar'') (cwd ?w2) (ext ?w2)
      = Inr [''old.nc'']"
    by (simp add: keep_out_dir demo_platform_def)
  have 8: "[''old.nc''] \<noteq> []"
    by simp
  from clobber_skip_ends_run [OF 1 2 keep_verify keep_first 5 6 7 8]
  show ?thesis
    by (simp add: vprint_def keep_request_def short_request_def)
qed

text \<open>
  C3. Without an explicit output directory, the destination directory is the part of
  the rendered path that starts at the first occurrence of the institution label,
  without its last segment. Let the label occur in \<open>htar_path\<close> after \<open>pre\<close> and not
  before, and let the path from the label on be \<open>h @ f\<close>, where \<open>f\<close>, the file name,
  has no slash. If \<open>h\<close> is a directory \<open>d\<close> followed by one or more slashes, the
  destination directory is \<open>d\<close>; if \<open>h\<close> is empty or made of slashes only, it is \<open>h\<close>.
\<close>

theorem out_dir_mirrors_archive:
  assumes "output_directory rq = None"
    and "htar_path = pre @ institution rq @ rest"
    and "\<forall>j<length pre. take (length (institution rq)) (drop j htar_path) \<noteq> institution rq"
    and "institution rq @ rest = h @ f"
    and "CHR ''/'' \<notin> set f"
  shows "(h = d @ replicate (Suc k) (CHR ''/'') \<and> d \<noteq> [] \<and> last d \<noteq> CHR ''/''
            \<longrightarrow> out_dir_of rq htar_path = d)
       \<and> (set h \<subseteq> {CHR ''/''} \<longrightarrow> out_dir_of rq htar_path = h)"
proof -
  have "py_find htar_path (institution rq) = int (length pre)"
    using assms(2,3) by (simp add: py_find_def find_from_first)
  then have "out_dir_of rq htar_path = dirname (h @ f)"
    using assms(1,2,4) by (simp add: out_dir_of_def slice_from_def)
  then show ?thesis
    using assms(5) by (auto simp: dirname_strip dirname_slashes simp del: replicate_Suc)
qed

theorem out_dir_mirrors_archive_witness:
  "out_dir_of default_request ''/a/b/LBNL/CAM5/run/hus_A3hr.tar'' = ''LBNL/CAM5/run''"
proof -
  have 1: "output_directory default_request = None"
    by (simp add: default_request_def)
  have 2: "''/a/b/LBNL/CAM5/run/hus_A3hr.tar''
      = ''/a/b/'' @ institution default_request @ ''/CAM5/run/hus_A3hr.tar''"
    by (simp add: default_request_def)
  have 3: "\<forall>j<length ''/a/b/''. take (length (institution default_request))
      (drop j ''/a/b/LBNL/CAM5/run/hus_A3hr.tar'') \<noteq> institution default_request"
    by (simp add: default_request_def All_less_Suc)
  have 4: "institution default_request @ ''/CAM5/run/hus_A3hr.tar''
      = ''LBNL/CAM5/run/'' @ ''hus_A3hr.tar''"
    by (simp add: default_request_def)
  have 5: "CHR ''/'' \<notin> set ''hus_A3hr.tar''"
    by simp
  from out_dir_mirrors_archive [OF 1 2 3 4 5, of "''LBNL/CAM5/run''" 0]
  show ?thesis by simp
qed

text \<open>
  C4. Rendering a path template. Take any template made of literal text without
  braces and of placeholders \<open>{name}\<close> for the seven fields, in any order and number;
  the default template is one. For every request and every variable name, the
  call of \<open>format\<close> at lines 91 to 98 succeeds on it, and the path is the template
  with each placeholder replaced by the value of its own field: \<open>{experiment}\<close> by
  the experiment of the request, \<open>{run}\<close> by its run, \<open>{variable}\<close> by the variable
  name, \<open>{institution}\<close>, \<open>{model}\<close>, \<open>{estimate}\<close> and \<open>{version}\<close> by the fields of
  these names. So the literal values stand at the positions of the placeholders
  and no placeholder is left. A brace can get into the path only from a field
  value: if none of the seven values has a brace, the path has none.
\<close>

theorem template_rendered:
  assumes "str_format pf = py_format"
    and "path_template rq = template_of segs"
    and "\<forall>s. Text s \<in> set segs \<longrightarrow> CHR ''{'' \<notin> set s \<and> CHR ''}'' \<notin> set s"
    and "\<forall>n. Hole n \<in> set segs \<longrightarrow> n \<in> set field_names"
  shows "render pf rq variable = Inr (substitute (field_value rq variable) segs)
       \<and> ((\<forall>n\<in>set field_names. CHR ''{'' \<notin> set (field_value rq variable n)
                \<and> CHR ''}'' \<notin> set (field_value rq variable n))
            \<longrightarrow> CHR ''{'' \<notin> set (substitute (field_value rq variable) segs)
              \<and> CHR ''}'' \<notin> set (substitute (field_value rq variable) segs))"
proof -
  have supplied: "map_of (format_kwargs rq variable) n \<noteq> None" if "n \<in> set field_names" for n
    using that by (auto simp: field_names_def format_kwargs_def)
  have "\<forall>n. Hole n \<in> set segs \<longrightarrow>
      plain_name n \<and> map_of (format_kwargs rq variable) n \<noteq> None"
    using assms(4) supplied field_names_plain by blast
  from render_segments [OF assms(3) this, of "[]"]
  have "py_format (template_of segs) (format_kwargs rq variable)
      = Inr (fill (format_kwargs rq variable) segs)"
    by (simp add: py_format_def)
  with assms(1,2) have "render pf rq variable = Inr (fill (format_kwargs rq variable) segs)"
    by (simp add: render_def)
  then have path: "render pf rq variable = Inr (substitute (field_value rq variable) segs)"
    by (simp add: fill_field_value [OF assms(4)])
  have "c \<notin> set (substitute (field_value rq variable) segs)"
    if "c = CHR ''{'' \<or> c = CHR ''}''"
      and "\<forall>n\<in>set field_names. CHR ''{'' \<notin> set (field_value rq variable n)
             \<and> CHR ''}'' \<notin> set (field_value rq variable n)" for c
  proof (rule substitute_no_char)
    show "\<forall>s. Text s \<in> set segs \<longrightarrow> c \<notin> set s"
      using assms(3) that(1) by blast
    show "\<forall>n. Hole n \<in> set segs \<longrightarrow> c \<notin> set (field_value rq variable n)"
      using assms(4) that by blast
  qed
  with path show ?thesis by blast
qed

theorem template_rendered_witness:
  "template_of default_segments = default_path_template
   \<and> render (demo_platform [] []) default_short_request ''hus'' =
       Inr ''/nersc/s/stoned/C20C/LBNL/M/E/e1/v2/3hr/atmos/hus/r1/hus_A3hr_M_E_e1_v2_r1.tar''
   \<and> render (demo_platform [] []) default_request ''ua'' =
       Inr ''/nersc/s/stoned/C20C/LBNL/CAM5-1-1degree/All-Hist/est1/v2-0/3hr/atmos/ua/run001/ua_A3hr_CAM5-1-1degree_All-Hist_est1_v2-0_run001.tar''
   \<and> CHR ''{'' \<notin> set (substitute (field_value default_short_request ''hus'') default_segments)
   \<and> CHR ''}'' \<notin> set (substitute (field_value default_short_request ''hus'') default_segments)"
proof -
  let ?pf = "demo_platform [] []"
  have t: "template_of default_segments = default_path_template"
    by (simp add: default_segments_def default_path_template_def)
  have 1: "str_format ?pf = py_format"
    by (simp add: demo_platform_def)
  have 2: "path_template default_short_request = template_of default_segments"
    by (simp add: t default_short_request_def)
  have dflt: "path_template default_request = template_of default_segments"
    by (simp add: t default_request_def)
  have 3: "\<forall>s. Text s \<in> set default_segments \<longrightarrow> CHR ''{'' \<notin> set s \<and> CHR ''}'' \<notin> set s"
    by (auto simp: default_segments_def)
  have 4: "\<forall>n. Hole n \<in> set default_segments \<longrightarrow> n \<in> set field_names"
    by (auto simp: default_segments_def field_names_def)
  have 5: "\<forall>n\<in>set field_names. CHR ''{'' \<notin> set (field_value default_short_request ''hus'' n)
      \<and> CHR ''}'' \<notin> set (field_value default_short_request ''hus'' n)"
    by (simp add: field_names_def field_value_def default_short_request_def short_request_def)
  have f: "substitute (field_value default_short_request ''hus'') default_segments =
      ''/nersc/s/stoned/C20C/LBNL/M/E/e1/v2/3hr/atmos/hus/r1/hus_A3hr_M_E_e1_v2_r1.tar''"
    by (simp add: default_segments_def field_value_def default_short_request_def
        short_request_def)
  have f': "substitute (field_value default_request ''ua'') default_segments =
      ''/nersc/s/stoned/C20C/LBNL/CAM5-1-1degree/All-Hist/est1/v2-0/3hr/atmos/ua/run001/ua_A3hr_CAM5-1-1degree_All-Hist_est1_v2-0_run001.tar''"
    by (simp add: default_segments_def field_value_def default_request_def)
  from template_rendered [OF 1 2 3 4, of "''hus''"] 5
  have a: "render ?pf default_short_request ''hus''
          = Inr (substitute (field_value default_short_request ''hus'') default_segments)"
    and b: "CHR ''{'' \<notin> set (substitute (field_value default_short_request ''hus'') default_segments)"
    and c: "CHR ''}'' \<notin> set (substitute (field_value default_short_request ''hus'') default_segments)"
    by blast+
  from template_rendered [OF 1 dflt 3 4, of "''ua''"]
  have d: "render ?pf default_request ''ua''
          = Inr (substitute (field_value default_request ''ua'') default_segments)"
    by blast
  from a b c d t show ?thesis
    unfolding f f' by blast
qed

text \<open>
  C5. A failed extraction ends the run. If an \<open>htar\<close> command that the run started
  did not end with exit status 0, then it is the last command of the run (nothing
  is started for the variables after it), it extracted the rendered path of one of
  the requested variables, and the run raises the exception of that command, which
  carries its command line and its exit status.
\<close>

theorem extraction_failure_ends_run:
  assumes "extract_c20c_data pf rq w = (r, w')"
    and "new_procs w w' = before @ call # after"
    and "program call = ''htar''"
    and "result call \<noteq> Exited 0"
  shows "after = []
       \<and> r = Inl (proc_error (argv call) (result call))
       \<and> (\<exists>v\<in>set (variables rq). \<exists>p. render pf rq v = Inr p \<and> argv call = htar_args rq p)"
  using assms(1)
proof (cases rule: run_cases)
  case (verifying e pre v rest tail)
  from assms(2) verifying(4) have "call \<in> set (checks pf rq pre) \<or> call \<in> set tail"
    by (metis Un_iff in_set_conv_decomp set_append)
  with assms(3) verify_end_tail [OF verifying(5)] show ?thesis
    by (auto dest: checks_props)
next
  case (extracting pre rest tail)
  let ?xs = "checks pf rq (variables rq) @ extractions pf rq pre"
  have l: "after = [] \<and> tail = [call]"
  proof (rule failed_is_last)
    show "?xs @ tail = before @ call # after"
      using assms(2) extracting(3) by simp
    show "\<forall>x\<in>set ?xs. result x = Exited 0"
      by (auto dest: checks_props extractions_props)
    show "result call \<noteq> Exited 0" by fact
    show "length tail \<le> 1"
      using loop_end_tail [OF extracting(4)] by simp
  qed
  with extracting(4) assms(4) obtain e where e: "r = Inl e" "rest \<noteq> []"
      "call = Invocation (htar_args rq (path_of pf rq (hd rest))) (result call)"
      "e = proc_error (htar_args rq (path_of pf rq (hd rest))) (result call)"
    by (auto simp: loop_end_def split: sum.splits)
  from e(2) extracting(2) have "hd rest \<in> set (variables rq)" by simp
  moreover from this extracting(1) have "render pf rq (hd rest) = Inr (path_of pf rq (hd rest))"
    by (simp add: renders_path_of)
  moreover from e(3) have "argv call = htar_args rq (path_of pf rq (hd rest))"
    by (metis invocation.sel(1))
  ultimately show ?thesis using l e(1,4) by auto
qed


theorem extraction_failure_ends_run_witness:
  "fst (extract_c20c_data
         (demo_platform [[''htar'', ''-T'', ''15'', ''-xf'', ''/t/LBNL/M/ua/ua_r1.tar'']] [])
         short_request demo_world)
     = Inl (proc_error [''htar'', ''-T'', ''15'', ''-xf'', ''/t/LBNL/M/ua/ua_r1.tar''] (Exited 1))
   \<and> (\<exists>v\<in>set (variables short_request). \<exists>p.
         render (demo_platform [[''htar'', ''-T'', ''15'', ''-xf'', ''/t/LBNL/M/ua/ua_r1.tar'']] [])
           short_request v = Inr p
         \<and> [''htar'', ''-T'', ''15'', ''-xf'', ''/t/LBNL/M/ua/ua_r1.tar''] = htar_args short_request p)"
  using extraction_failure_ends_run [OF demo_run_extract_fails,
      of "[Invocation [''hsi'', ''ls /t/LBNL/M/hus/hus_r1.tar''] (Exited 0),
           Invocation [''hsi'', ''ls /t/LBNL/M/ua/ua_r1.tar''] (Exited 0),
           Invocation [''hsi'', ''ls /t/LBNL/M/va/va_r1.tar''] (Exited 0),
           Invocation [''htar'', ''-T'', ''15'', ''-xf'', ''/t/LBNL/M/hus/hus_r1.tar''] (Exited 0)]"
         "Invocation [''htar'', ''-T'', ''15'', ''-xf'', ''/t/LBNL/M/ua/ua_r1.tar''] (Exited 1)" "[]"]
  by (simp add: demo_run_extract_fails new_procs_def demo_world_simps program_def)

text \<open>
  C6. The working directory after a run without exception. If the run returns, at
  the end of the body or at line 132, and the working directory at the start is an
  absolute path, as the one of a process is, then the working directory at the end
  is the one at the start. This holds for every variable list.
\<close>

theorem cwd_restored_after_success:
  assumes "extract_c20c_data pf rq w = (Inr fin, w')" and "is_abs (cwd w)"
  shows "cwd w' = cwd w"
  using assms(1)
proof (cases rule: run_cases)
  case (verifying e pre v rest tail)
  then show ?thesis by simp
next
  case (extracting pre rest tail)
  with assms(2) show ?thesis by (simp add: loop_end_def)
qed


theorem cwd_restored_after_success_witness:
  "is_abs (cwd demo_world)
   \<and> cwd (snd (extract_c20c_data (demo_platform [] []) short_request demo_world)) = cwd demo_world"
  using cwd_restored_after_success [OF demo_run_completes]
  by (simp add: demo_run_completes is_abs_def demo_world_simps)

text \<open>
  C7. When the path of some requested variable cannot be rendered, the run raises
  an exception and starts no \<open>htar\<close> command: the only commands it starts are the
  \<open>hsi\<close> checks of the first \<open>k\<close> variables of the list, all of them before the first
  variable whose path cannot be rendered. So no command at all is started when
  verification is disabled, and none when the template names a field that is not
  supplied (with \<open>py_format\<close> for \<open>str.format\<close>), since then the first variable
  already fails.
\<close>

theorem render_failure_before_extraction:
  assumes "extract_c20c_data pf rq w = (r, w')"
    and "v \<in> set (variables rq)"
    and "render pf rq v = Inl err"
  shows "(\<exists>e. r = Inl e)
       \<and> (\<exists>k\<le>length (takeWhile (renders pf rq) (variables rq)).
             map argv (new_procs w w') = map (\<lambda>u. hsi_args (path_of pf rq u)) (take k (variables rq)))
       \<and> (\<not> verify_first rq \<longrightarrow> new_procs w w' = [])
       \<and> (str_format pf = py_format \<and> (\<exists>name. err = KeyError name) \<longrightarrow> new_procs w w' = [])"
proof -
  let ?vs = "variables rq"
  let ?f = "\<lambda>u. hsi_args (path_of pf rq u)"
  from assms(3) have nv: "\<not> renders pf rq v" by (simp add: renders_def)
  have main: "(\<exists>e. r = Inl e)
       \<and> (\<exists>k\<le>length (takeWhile (renders pf rq) ?vs). map argv (new_procs w w') = map ?f (take k ?vs))
       \<and> (\<not> verify_first rq \<longrightarrow> new_procs w w' = [])"
    using assms(1)
  proof (cases rule: run_cases)
    case (extracting pre rest tail)
    with assms(2) nv show ?thesis by blast
  next
    case (verifying e pre u rest tail)
    have off: "new_procs w w' = []" if "\<not> verify_first rq"
      using that verifying(4,5) by (auto simp: checks_def verify_end_def)
    have "\<exists>k\<le>length (takeWhile (renders pf rq) ?vs). map argv (new_procs w w') = map ?f (take k ?vs)"
    proof (cases "verify_first rq")
      case False
      with off have "map argv (new_procs w w') = map ?f (take 0 ?vs)" by simp
      then show ?thesis by blast
    next
      case True
      show ?thesis
      proof (cases "tail = []")
        case True
        with \<open>verify_first rq\<close> verifying(2,4)
        have "map argv (new_procs w w') = map ?f (take (length pre) ?vs)"
          by (simp add: checks_def comp_def)
        moreover have "length pre \<le> length (takeWhile (renders pf rq) ?vs)"
          using verifying(2,3) by (rule takeWhile_length)
        ultimately show ?thesis by blast
      next
        case False
        with verifying(5) obtain res where t: "renders pf rq u"
            "tail = [Invocation (hsi_args (path_of pf rq u)) res]"
          by (auto simp: verify_end_def)
        from verifying(2) have split: "?vs = (pre @ [u]) @ rest" by simp
        from t(2) \<open>verify_first rq\<close> verifying(4)
        have "map argv (new_procs w w') = map ?f (pre @ [u])"
          by (simp add: checks_def comp_def)
        also have "pre @ [u] = take (length (pre @ [u])) ?vs"
          using split by (metis append_eq_conv_conj)
        finally have "map argv (new_procs w w') = map ?f (take (length (pre @ [u])) ?vs)" .
        moreover have "length (pre @ [u]) \<le> length (takeWhile (renders pf rq) ?vs)"
          using split
        proof (rule takeWhile_length)
          show "\<forall>x\<in>set (pre @ [u]). renders pf rq x"
            using verifying(3) t(1) by simp
        qed
        ultimately show ?thesis by blast
      qed
    qed
    with verifying(1) off show ?thesis by blast
  qed
  have key: "new_procs w w' = []" if "str_format pf = py_format" "err = KeyError name" for name
  proof -
    from assms(2) obtain x xs where vs: "?vs = x # xs" by (cases ?vs) auto
    from assms(3) that
    have "py_format (path_template rq) (format_kwargs rq v) = Inl (KeyError name)"
      by (simp add: render_def)
    from py_format_KeyError [OF this]
    obtain e where "py_format (path_template rq) (format_kwargs rq x) = Inl e" by blast
    with that(1) have "\<not> renders pf rq x"
      by (simp add: renders_def render_def)
    with vs have "takeWhile (renders pf rq) ?vs = []" by simp
    with main show ?thesis by auto
  qed
  from main key show ?thesis by blast
qed


text \<open>
  A rendering failure can come after an external command: with the template
  \<open>/t/{variable[0]}.tar\<close> and the variables \<open>hus\<close> and the empty name, the path of
  \<open>hus\<close> is rendered and checked before the index into the empty name raises.
\<close>

theorem render_failure_after_check_counterexample:
  "render (demo_platform [] []) index_request [] = Inl IndexError
   \<and> fst (extract_c20c_data (demo_platform [] []) index_request demo_world) = Inl IndexError
   \<and> procs (snd (extract_c20c_data (demo_platform [] []) index_request demo_world))
       = [Invocation [''hsi'', ''ls /t/h.tar''] (Exited 0)]"
  by (simp add: index_run index_render)

theorem render_failure_before_extraction_witness:
  "(\<exists>k\<le>length (takeWhile (renders (demo_platform [] []) index_request) (variables index_request)).
      map argv (new_procs demo_world
          (snd (extract_c20c_data (demo_platform [] []) index_request demo_world)))
      = map (\<lambda>u. hsi_args (path_of (demo_platform [] []) index_request u))
          (take k (variables index_request)))
   \<and> (\<exists>e. fst (extract_c20c_data (demo_platform [] []) index_request demo_world) = Inl e)"
proof -
  have 2: "[] \<in> set (variables index_request)"
    by (simp add: variables_def index_request_def)
  from render_failure_before_extraction [OF index_run 2 index_render]
  show ?thesis
    by (simp add: index_run)
qed



text \<open>
  C9. The working directory after a failed extraction. If an \<open>htar\<close> command of the
  run did not end with exit status 0 and the working directory at the start is an
  absolute path, then the run ends in the destination directory of the variable
  that was being extracted, resolved from the working directory at the start: the
  extractions before it had each restored the working directory, this one did not.
\<close>

theorem cwd_left_in_destination:
  assumes "extract_c20c_data pf rq w = (r, w')" and "is_abs (cwd w)"
    and "call \<in> set (new_procs w w')"
    and "program call = ''htar''"
    and "result call \<noteq> Exited 0"
  shows "\<exists>v\<in>set (variables rq). \<exists>p. render pf rq v = Inr p \<and> argv call = htar_args rq p
           \<and> cwd w' = resolve (cwd w) (out_dir_of rq p)"
  using assms(1)
proof (cases rule: run_cases)
  case (verifying e pre v rest tail)
  from assms(3) verifying(4) have "call \<in> set (checks pf rq pre) \<or> call \<in> set tail"
    by auto
  with assms(4) verify_end_tail [OF verifying(5)] show ?thesis
    by (auto dest: checks_props)
next
  case (extracting pre rest tail)
  from assms(3,5) extracting(3) have "call \<in> set tail"
    by (auto dest: checks_props extractions_props)
  with extracting(4) assms(2,5) have e: "rest \<noteq> []"
      "argv call = htar_args rq (path_of pf rq (hd rest))"
      "cwd w' = resolve (cwd w) (out_dir_of rq (path_of pf rq (hd rest)))"
    by (auto simp: loop_end_def split: sum.splits)
  from e(1) extracting(2) have "hd rest \<in> set (variables rq)" by simp
  moreover from this extracting(1) have "render pf rq (hd rest) = Inr (path_of pf rq (hd rest))"
    by (simp add: renders_path_of)
  ultimately show ?thesis using e(2,3) by blast
qed


theorem cwd_left_in_destination_witness:
  "cwd (snd (extract_c20c_data
         (demo_platform [[''htar'', ''-T'', ''15'', ''-xf'', ''/t/LBNL/M/ua/ua_r1.tar'']] [])
         short_request demo_world)) = ''/home/user/LBNL/M/ua''
   \<and> (\<exists>v\<in>set (variables short_request). \<exists>p.
         render (demo_platform [[''htar'', ''-T'', ''15'', ''-xf'', ''/t/LBNL/M/ua/ua_r1.tar'']] [])
           short_request v = Inr p
         \<and> [''htar'', ''-T'', ''15'', ''-xf'', ''/t/LBNL/M/ua/ua_r1.tar''] = htar_args short_request p
         \<and> ''/home/user/LBNL/M/ua'' = resolve (cwd demo_world) (out_dir_of short_request p))"
  using cwd_left_in_destination [OF demo_run_extract_fails,
      of "Invocation [''htar'', ''-T'', ''15'', ''-xf'', ''/t/LBNL/M/ua/ua_r1.tar''] (Exited 1)"]
  by (simp add: demo_run_extract_fails new_procs_def demo_world_simps program_def is_abs_def)

text \<open>
  C10. The institution label absent from the path. Without an explicit output
  directory, if the label does not occur in the rendered path, the derivation does
  not fail: the search answers \<open>-1\<close>, the slice is the last character of the path,
  and the destination directory is the \<open>dirname\<close> of that character: the root \<open>/\<close>
  when the path ends with a slash, the empty string otherwise.
\<close>

theorem out_dir_when_institution_absent:
  assumes "output_directory rq = None"
    and "\<forall>pre rest. htar_path \<noteq> pre @ institution rq @ rest"
  shows "py_find htar_path (institution rq) = - 1
       \<and> out_dir_of rq htar_path = dirname (slice_from htar_path (- 1))
       \<and> out_dir_of rq htar_path =
           (if htar_path \<noteq> [] \<and> last htar_path = CHR ''/'' then ''/'' else [])"
proof -
  have f: "py_find htar_path (institution rq) = - 1"
    using assms(2) by (simp add: py_find_def find_from_absent)
  have s: "slice_from htar_path (- 1) = (if htar_path = [] then [] else [last htar_path])"
    by (cases htar_path rule: rev_cases) (auto simp: slice_from_def)
  have d: "dirname [c] = (if c = CHR ''/'' then ''/'' else [])" for c
    by (simp add: dirname_def py_rfind_char_def rstrip_char_def)
  have d0: "dirname [] = []"
    by (simp add: dirname_def py_rfind_char_def)
  show ?thesis
    using assms(1) f s d d0 by (simp add: out_dir_of_def)
qed

text \<open>
  The destination directory is not always empty then: the path \<open>/data/hus/\<close>, rendered
  from the template \<open>/data/{variable}/\<close>, does not contain the label \<open>LBNL\<close>, and its
  destination directory is the root.
\<close>

theorem out_dir_root_counterexample:
  "render (demo_platform [] []) slash_request ''hus'' = Inr ''/data/hus/''
   \<and> output_directory slash_request = None
   \<and> py_find ''/data/hus/'' (institution slash_request) = - 1
   \<and> out_dir_of slash_request ''/data/hus/'' = ''/''"
  by (simp add: demo_defs slash_request_def)

theorem out_dir_when_institution_absent_witness:
  "py_find ''/data/hus.tar'' (institution short_request) = - 1
   \<and> out_dir_of short_request ''/data/hus.tar'' = []"
proof -
  have 1: "output_directory short_request = None"
    by (simp add: short_request_def)
  have "py_find ''/data/hus.tar'' (institution short_request) = - 1"
    by (simp add: py_find_def short_request_def)
  then have 2: "\<forall>pre rest. ''/data/hus.tar'' \<noteq> pre @ institution short_request @ rest"
    by (rule py_find_absent)
  from out_dir_when_institution_absent [OF 1 2]
  have "py_find ''/data/hus.tar'' (institution short_request) = - 1"
    and "out_dir_of short_request ''/data/hus.tar'' =
           (if ''/data/hus.tar'' \<noteq> [] \<and> last ''/data/hus.tar'' = CHR ''/'' then ''/'' else [])"
    by blast+
  then show ?thesis
    by simp
qed

end
